theory Spec2Isabelle
  imports Complex_Main "HOL-Library.AList" "HOL-Library.Word"
begin

unbundle bit_operations_syntax

section \<open>Polonium: the directional resolver and the tiling driver\<close>

text \<open>
  A shallow embedding of \<^verbatim>\<open>controller/actions/shortcuts.ts\<close> (the probe points of the
  directional commands) and of \<^verbatim>\<open>driver/driver.ts\<close> (class \<^verbatim>\<open>TilingDriver\<close>).
  JavaScript objects are referred to by identity, so live tiles, live windows, abstract
  tiles and clients are references (natural numbers); JavaScript numbers that hold pixel
  and relative coordinates are read as reals.
\<close>

subsection \<open>Geometry and references\<close>

type_synonym kwin_tile = nat
type_synonym kwin_window = nat
type_synonym tile = nat
type_synonym client = nat

record GPoint =
  px :: real
  py :: real

record QRect =
  rx :: real
  ry :: real
  rwidth :: real
  rheight :: real

record GSize =
  sw :: real
  sh :: real

text \<open>Enum \<^verbatim>\<open>Direction\<close> of \<^verbatim>\<open>shortcuts.ts\<close>.\<close>

datatype Direction = Above | Below | Left | Right

text \<open>
  A \<^verbatim>\<open>Kwin.Window\<close>: the tile it is assigned to (nullable), its frame, its minimized and
  full-screen flags and the state \<^verbatim>\<open>setMaximize(vertical, horizontal)\<close> leaves. The probe
  functions read the tile's \<^verbatim>\<open>padding\<close> through the reference, by the accessor
  \<open>padding\<close> handed to each of them.
\<close>

record Window =
  w_tile :: "kwin_tile option"
  frameGeometry :: QRect
  minimized :: bool
  fullScreen :: bool
  maximizeMode :: "bool \<times> bool"

definition pointAbove :: "(kwin_tile \<Rightarrow> real) \<Rightarrow> Window \<Rightarrow> GPoint option" where
  "pointAbove padding window =
     (case w_tile window of
        None \<Rightarrow> None
      | Some t \<Rightarrow>
          (let geometry = frameGeometry window;
               coordOffset = 1 + padding t
           in Some \<lparr>px = rx geometry + 1, py = ry geometry - coordOffset\<rparr>))"

definition pointBelow :: "(kwin_tile \<Rightarrow> real) \<Rightarrow> Window \<Rightarrow> GPoint option" where
  "pointBelow padding window =
     (case w_tile window of
        None \<Rightarrow> None
      | Some t \<Rightarrow>
          (let geometry = frameGeometry window;
               coordOffset = 1 + rheight geometry + padding t
           in Some \<lparr>px = rx geometry + 1, py = ry geometry + coordOffset\<rparr>))"

definition pointLeft :: "(kwin_tile \<Rightarrow> real) \<Rightarrow> Window \<Rightarrow> GPoint option" where
  "pointLeft padding window =
     (case w_tile window of
        None \<Rightarrow> None
      | Some t \<Rightarrow>
          (let geometry = frameGeometry window;
               coordOffset = 1 + padding t
           in Some \<lparr>px = rx geometry - coordOffset, py = ry geometry + 1\<rparr>))"

definition pointRight :: "(kwin_tile \<Rightarrow> real) \<Rightarrow> Window \<Rightarrow> GPoint option" where
  "pointRight padding window =
     (case w_tile window of
        None \<Rightarrow> None
      | Some t \<Rightarrow>
          (let geometry = frameGeometry window;
               coordOffset = 1 + rwidth geometry + padding t
           in Some \<lparr>px = rx geometry + coordOffset, py = ry geometry + 1\<rparr>))"

fun pointInDirection :: "(kwin_tile \<Rightarrow> real) \<Rightarrow> Window \<Rightarrow> Direction \<Rightarrow> GPoint option" where
  "pointInDirection padding window Above = pointAbove padding window"
| "pointInDirection padding window Below = pointBelow padding window"
| "pointInDirection padding window Left = pointLeft padding window"
| "pointInDirection padding window Right = pointRight padding window"

text \<open>
  The probe point a direction asks for: beyond the edge of the frame on that side by
  \<open>1 + padding\<close>, the other coordinate one unit inside the frame's top-left corner.
\<close>

fun probe :: "QRect \<Rightarrow> real \<Rightarrow> Direction \<Rightarrow> GPoint" where
  "probe g p Above = \<lparr>px = rx g + 1, py = ry g - (1 + p)\<rparr>"
| "probe g p Below = \<lparr>px = rx g + 1, py = (ry g + rheight g) + (1 + p)\<rparr>"
| "probe g p Left = \<lparr>px = rx g - (1 + p), py = ry g + 1\<rparr>"
| "probe g p Right = \<lparr>px = (rx g + rwidth g) + (1 + p), py = ry g + 1\<rparr>"

text \<open>A point is strictly outside a rectangle on the given side.\<close>

fun outside :: "QRect \<Rightarrow> Direction \<Rightarrow> GPoint \<Rightarrow> bool" where
  "outside g Above pt = (py pt < ry g)"
| "outside g Below pt = (ry g + rheight g < py pt)"
| "outside g Left pt = (px pt < rx g)"
| "outside g Right pt = (rx g + rwidth g < px pt)"

subsection \<open>The bidirectional map\<close>

text \<open>
  \<^verbatim>\<open>BiMap\<close> is the bi-map of the mnemonist library: two JavaScript \<^verbatim>\<open>Map\<close>s, \<open>items\<close> from
  keys to values and \<open>inverse_items\<close> from values to keys. A JavaScript \<^verbatim>\<open>Map\<close> keeps its
  keys in insertion order and keeps the position of a key that is set again, which is what
  \<^const>\<open>AList.update\<close> does on an association list.
\<close>

record ('k, 'v) BiMap =
  items :: "('k \<times> 'v) list"
  inverse_items :: "('v \<times> 'k) list"

definition bimap_empty :: "('k, 'v) BiMap" where
  "bimap_empty = \<lparr>items = [], inverse_items = []\<rparr>"

definition bimap_get :: "('k, 'v) BiMap \<Rightarrow> 'k \<Rightarrow> 'v option" where
  "bimap_get m k = map_of (items m) k"

definition bimap_has :: "('k, 'v) BiMap \<Rightarrow> 'k \<Rightarrow> bool" where
  "bimap_has m k = (map_of (items m) k \<noteq> None)"

definition bimap_inverse_get :: "('k, 'v) BiMap \<Rightarrow> 'v \<Rightarrow> 'k option" where
  "bimap_inverse_get m v = map_of (inverse_items m) v"

definition bimap_values :: "('k, 'v) BiMap \<Rightarrow> 'v list" where
  "bimap_values m = map snd (items m)"

text \<open>
  \<^verbatim>\<open>BiMap.set(key, value)\<close>: nothing when the relation is already there; otherwise the old
  value of the key leaves the inverse map, the old key of the value leaves the forward map,
  and the pair is stored in both.
\<close>

definition bimap_set :: "'k \<Rightarrow> 'v \<Rightarrow> ('k, 'v) BiMap \<Rightarrow> ('k, 'v) BiMap" where
  "bimap_set k v m =
     (let cur = map_of (items m) k in
      if cur = Some v then m
      else
        let inv1 = (case cur of Some cv \<Rightarrow> AList.delete cv (inverse_items m)
                              | None \<Rightarrow> inverse_items m);
            ck = map_of inv1 v
        in if ck = Some k then m\<lparr>inverse_items := inv1\<rparr>
           else
             let its1 = (case ck of Some k' \<Rightarrow> AList.delete k' (items m)
                                  | None \<Rightarrow> items m)
             in \<lparr>items = AList.update k v its1, inverse_items = AList.update v k inv1\<rparr>)"

text \<open>\<^verbatim>\<open>BiMap.delete(key)\<close> and \<^verbatim>\<open>BiMap.inverse.delete(value)\<close>.\<close>

definition bimap_delete :: "'k \<Rightarrow> ('k, 'v) BiMap \<Rightarrow> ('k, 'v) BiMap" where
  "bimap_delete k m =
     (case map_of (items m) k of
        None \<Rightarrow> m
      | Some cv \<Rightarrow> \<lparr>items = AList.delete k (items m),
                    inverse_items = AList.delete cv (inverse_items m)\<rparr>)"

definition bimap_inverse_delete :: "'v \<Rightarrow> ('k, 'v) BiMap \<Rightarrow> ('k, 'v) BiMap" where
  "bimap_inverse_delete v m =
     (case map_of (inverse_items m) v of
        None \<Rightarrow> m
      | Some ck \<Rightarrow> \<lparr>items = AList.delete ck (items m),
                    inverse_items = AList.delete v (inverse_items m)\<rparr>)"

text \<open>
  The two maps are one-to-one in both directions: each is the inverse of the other (so no
  two keys share a value and no two values share a key), and neither list repeats a key.
\<close>

definition one_to_one :: "('k, 'v) BiMap \<Rightarrow> bool" where
  "one_to_one m \<longleftrightarrow>
     distinct (map fst (items m)) \<and> distinct (map fst (inverse_items m)) \<and>
     (\<forall>k v. map_of (items m) k = Some v \<longleftrightarrow> map_of (inverse_items m) v = Some k)"

text \<open>No two keys share a value and no two values share a key.\<close>

definition injective_both :: "('k, 'v) BiMap \<Rightarrow> bool" where
  "injective_both m \<longleftrightarrow>
     (\<forall>k1 k2 v. bimap_get m k1 = Some v \<and> bimap_get m k2 = Some v \<longrightarrow> k1 = k2) \<and>
     (\<forall>v1 v2 k. bimap_inverse_get m v1 = Some k \<and> bimap_inverse_get m v2 = Some k \<longrightarrow> v1 = v2)"

subsection \<open>The live tile tree of the host\<close>

text \<open>
  Modelled from the spec: the host's tiles are declared in \<^verbatim>\<open>kwin.d.ts\<close> but implemented
  by KWin, outside the repository. A live tile has an ordered child list, relative and
  absolute geometry, a layout direction (0 floating, 1 horizontal, 2 vertical), a padding,
  a \<^verbatim>\<open>split(direction)\<close> mutator and a \<^verbatim>\<open>remove()\<close> destructor. The live tiles of a screen form
  a tree; a reference is the identity \<open>k_id\<close> of a node. A reference to a tile
  that has left the tree denotes a destroyed tile.
\<close>

datatype KTile =
  KTile (k_id: kwin_tile) (k_layoutDirection: nat) (k_relativeGeometry: QRect)
        (k_absoluteGeometry: QRect) (k_padding: real) (k_tiles: "KTile list")

fun k_find :: "kwin_tile \<Rightarrow> KTile \<Rightarrow> KTile option"
  and k_find_list :: "kwin_tile \<Rightarrow> KTile list \<Rightarrow> KTile option" where
  "k_find i (KTile j d r a p ts) =
     (if i = j then Some (KTile j d r a p ts) else k_find_list i ts)"
| "k_find_list i [] = None"
| "k_find_list i (t # ts) =
     (case k_find i t of Some n \<Rightarrow> Some n | None \<Rightarrow> k_find_list i ts)"

text \<open>Writing a property of the tile a reference denotes.\<close>

fun k_update :: "kwin_tile \<Rightarrow> (KTile \<Rightarrow> KTile) \<Rightarrow> KTile \<Rightarrow> KTile" where
  "k_update i f (KTile j d r a p ts) =
     (if i = j then f (KTile j d r a p ts)
      else KTile j d r a p (map (k_update i f) ts))"

text \<open>
  \<^verbatim>\<open>remove()\<close>: the tile leaves the child list of its parent, with everything below it.
  The root of the tree has no parent and stays.
\<close>

fun k_remove :: "kwin_tile \<Rightarrow> KTile \<Rightarrow> KTile" where
  "k_remove i (KTile j d r a p ts) =
     KTile j d r a p (map (k_remove i) (filter (\<lambda>t. k_id t \<noteq> i) ts))"

fun k_size :: "KTile \<Rightarrow> nat" where
  "k_size (KTile j d r a p ts) = Suc (sum_list (map k_size ts))"

fun k_maxid :: "KTile \<Rightarrow> nat" where
  "k_maxid (KTile j d r a p ts) = fold max (map k_maxid ts) j"

text \<open>
  \<^verbatim>\<open>split(direction)\<close>. Splitting a child of a tile that is laid out in the same direction
  produces the next sibling (the behaviour the spec names); any other split gives the tile
  the direction and two new children. \<open>a\<close> and \<open>Suc a\<close> are the identities of the new tiles.
  Which geometry the host gives the two tiles a split leaves is not in \<^verbatim>\<open>kwin.d.ts\<close>: it
  is the parameter \<open>sg\<close>, from the direction and the rectangle that is split to the
  rectangles of the first and of the second tile.
\<close>

type_synonym SplitGeometry = "nat \<Rightarrow> QRect \<Rightarrow> QRect \<times> QRect"

definition splitIntoChildren :: "SplitGeometry \<Rightarrow> nat \<Rightarrow> kwin_tile \<Rightarrow> KTile \<Rightarrow> KTile" where
  "splitIntoChildren sg d a t =
     KTile (k_id t) d (k_relativeGeometry t) (k_absoluteGeometry t) (k_padding t)
       (k_tiles t @
        [KTile a d (fst (sg d (k_relativeGeometry t))) (fst (sg d (k_absoluteGeometry t)))
           (k_padding t) [],
         KTile (Suc a) d (snd (sg d (k_relativeGeometry t)))
           (snd (sg d (k_absoluteGeometry t))) (k_padding t) []])"

definition splitIntoSiblings :: "SplitGeometry \<Rightarrow> nat \<Rightarrow> kwin_tile \<Rightarrow> KTile \<Rightarrow> KTile list" where
  "splitIntoSiblings sg d a t =
     [KTile (k_id t) (k_layoutDirection t) (fst (sg d (k_relativeGeometry t)))
        (fst (sg d (k_absoluteGeometry t))) (k_padding t) (k_tiles t),
      KTile a d (snd (sg d (k_relativeGeometry t))) (snd (sg d (k_absoluteGeometry t)))
        (k_padding t) []]"

fun k_split :: "SplitGeometry \<Rightarrow> kwin_tile \<Rightarrow> nat \<Rightarrow> kwin_tile \<Rightarrow> KTile \<Rightarrow> KTile"
  and k_split_list ::
    "SplitGeometry \<Rightarrow> kwin_tile \<Rightarrow> nat \<Rightarrow> kwin_tile \<Rightarrow> nat \<Rightarrow> KTile list \<Rightarrow> KTile list" where
  "k_split sg i d a (KTile j dj r ab p ts) =
     (if i = j then splitIntoChildren sg d a (KTile j dj r ab p ts)
      else KTile j dj r ab p (k_split_list sg i d a dj ts))"
| "k_split_list sg i d a dj [] = []"
| "k_split_list sg i d a dj (t # ts) =
     (if k_id t = i
      then (if dj = d then splitIntoSiblings sg d a t else [splitIntoChildren sg d a t]) @ ts
      else k_split sg i d a t # k_split_list sg i d a dj ts)"

text \<open>A host that gives each of the two tiles half of the split rectangle along the direction.\<close>

definition firstHalf :: "nat \<Rightarrow> QRect \<Rightarrow> QRect" where
  "firstHalf d r =
     (if d = 1 then r\<lparr>rwidth := rwidth r / 2\<rparr>
      else if d = 2 then r\<lparr>rheight := rheight r / 2\<rparr>
      else r)"

definition secondHalf :: "nat \<Rightarrow> QRect \<Rightarrow> QRect" where
  "secondHalf d r =
     (if d = 1 then r\<lparr>rx := rx r + rwidth r / 2, rwidth := rwidth r / 2\<rparr>
      else if d = 2 then r\<lparr>ry := ry r + rheight r / 2, rheight := rheight r / 2\<rparr>
      else r)"

definition evenSplit :: SplitGeometry where
  "evenSplit d r = (firstHalf d r, secondHalf d r)"

text \<open>The references in the child list of the tile a reference denotes.\<close>

definition k_children :: "kwin_tile \<Rightarrow> KTile \<Rightarrow> kwin_tile list" where
  "k_children i t = (case k_find i t of None \<Rightarrow> [] | Some n \<Rightarrow> map k_id (k_tiles n))"

text \<open>Reading an array at an index: \<^verbatim>\<open>undefined\<close> past its end.\<close>

definition at_index :: "'a list \<Rightarrow> nat \<Rightarrow> 'a option" where
  "at_index xs i = (if i < length xs then Some (xs ! i) else None)"


subsection \<open>Abstract tiles\<close>

text \<open>
  Modelled from the spec: class \<^verbatim>\<open>Tile\<close> of the engine module is not under src/. An
  abstract tile is a node of an n-ary tree: an ordered list of child tiles, a layout
  direction, at most one occupant client, a requested size and a back-reference to its
  parent. The objects live in a store; \<open>next_tile\<close> is the identity the next new tile gets.
\<close>

record TileObj =
  t_parent :: "tile option"
  t_tiles :: "tile list"
  t_layoutDirection :: nat
  t_client :: "client option"
  t_requestedSize :: "GSize option"

record TileHeap =
  objs :: "tile \<Rightarrow> TileObj"
  next_tile :: nat

text \<open>
  Modelled from the spec: \<^verbatim>\<open>Tile.addChild()\<close>, the child-adding primitive of the abstract
  tree, makes a new leaf, appends it to the children of the tile and returns it (the child
  is laid out across its parent). For \<^verbatim>\<open>Tile.remove()\<close> the spec has the data model only (a
  parent owns its children): the tile leaves the child list of its parent and loses its
  own children and occupant; a tile without parent stays as it is.
\<close>

definition tile_addChild :: "tile \<Rightarrow> TileHeap \<Rightarrow> tile \<times> TileHeap" where
  "tile_addChild t h =
     (let n = next_tile h;
          child = \<lparr>t_parent = Some t, t_tiles = [],
                   t_layoutDirection = (if t_layoutDirection (objs h t) = 1 then 2 else 1),
                   t_client = None, t_requestedSize = None\<rparr>;
          o1 = (objs h)(n := child)
      in (n, \<lparr>objs = o1(t := (o1 t)\<lparr>t_tiles := t_tiles (o1 t) @ [n]\<rparr>), next_tile = Suc n\<rparr>))"

definition tile_remove :: "tile \<Rightarrow> TileHeap \<Rightarrow> TileHeap" where
  "tile_remove t h =
     (case t_parent (objs h t) of
        None \<Rightarrow> h
      | Some p \<Rightarrow>
          (let o1 = (objs h)(p := (objs h p)\<lparr>t_tiles := remove1 t (t_tiles (objs h p))\<rparr>)
           in h\<lparr>objs := o1(t := (o1 t)\<lparr>t_tiles := [], t_client := None\<rparr>)\<rparr>))"

text \<open>Modelled from the spec: \<^verbatim>\<open>GSize.fromRect\<close> and \<^verbatim>\<open>GPoint.centerOfRect\<close> of util/geometry.\<close>

definition fromRect :: "QRect \<Rightarrow> GSize" where
  "fromRect r = \<lparr>sw = rwidth r, sh = rheight r\<rparr>"

definition centerOfRect :: "QRect \<Rightarrow> GPoint" where
  "centerOfRect r = \<lparr>px = rx r + rwidth r / 2, py = ry r + rheight r / 2\<rparr>"

text \<open>Two stores of abstract tiles that differ at most in requested sizes.\<close>

definition same_structure :: "TileHeap \<Rightarrow> TileHeap \<Rightarrow> bool" where
  "same_structure h h' \<longleftrightarrow>
     next_tile h' = next_tile h \<and>
     (\<forall>t. t_parent (objs h' t) = t_parent (objs h t) \<and> t_tiles (objs h' t) = t_tiles (objs h t) \<and>
          t_layoutDirection (objs h' t) = t_layoutDirection (objs h t) \<and>
          t_client (objs h' t) = t_client (objs h t))"

subsection \<open>The engine and the state of the driver\<close>

datatype exn = EngineError nat | TypeError

datatype InsertionPoint = InsertLeft | InsertRight | Active

text \<open>
  The active \<^verbatim>\<open>TilingEngine\<close> is a collaborator behind an interface: its methods work on
  the engine's own state \<open>'e\<close> and on the abstract tiles, and may throw (the exception comes
  with the state the method left behind). The values of enum \<^verbatim>\<open>EngineCapability\<close> and
  \<^verbatim>\<open>DirectionTools.rotateCw\<close> are not under src/ either and are taken with the interface.
  A direction of util/geometry is a number.
\<close>

record 'e Engine =
  e_addClient :: "client \<Rightarrow> 'e \<Rightarrow> TileHeap \<Rightarrow> exn option \<times> 'e \<times> TileHeap"
  e_removeClient :: "client \<Rightarrow> 'e \<Rightarrow> TileHeap \<Rightarrow> exn option \<times> 'e \<times> TileHeap"
  e_putClientInTile :: "client \<Rightarrow> tile \<Rightarrow> nat option \<Rightarrow> 'e \<Rightarrow> TileHeap \<Rightarrow> exn option \<times> 'e \<times> TileHeap"
  e_buildLayout :: "'e \<Rightarrow> TileHeap \<Rightarrow> exn option \<times> 'e \<times> TileHeap"
  e_regenerateLayout :: "'e \<Rightarrow> TileHeap \<Rightarrow> exn option \<times> 'e \<times> TileHeap"
  e_engineCapability :: "'e \<Rightarrow> nat"
  e_insertionPoint :: "'e \<Rightarrow> InsertionPoint"
  e_rotateLayout :: "'e \<Rightarrow> bool"
  e_rootTile :: "'e \<Rightarrow> tile"
  e_untiledClients :: "'e \<Rightarrow> client list"
  TranslateRotation :: nat
  TilesMutable :: nat
  rotateCw :: "nat \<Rightarrow> nat"

record WindowExtensions =
  maximized :: bool
  lastTiledLocation :: "GPoint option"

datatype LogEntry =
  ErrorException exn
| ErrorTileNotRegistered kwin_tile
| ErrorClientDoesNotExist client
| DebugRotated nat

text \<open>
  The fields of \<^verbatim>\<open>TilingDriver\<close> (\<open>engine\<close>, \<open>engineType\<close>, \<open>tiles\<close>, \<open>clients\<close>,
  \<open>untiledWindows\<close>), the abstract tiles, and what the driver reaches through the
  controller: the live tree, the windows, the active window, \<^verbatim>\<open>windowExtensions\<close>,
  \<^verbatim>\<open>managedTiles\<close>, \<^verbatim>\<open>config.maximizeSingle\<close> and the log. A key of \<open>tiles\<close> may be
  \<^verbatim>\<open>undefined\<close> (\<open>None\<close>): \<^verbatim>\<open>buildLayout\<close> stores \<^verbatim>\<open>kwinTile.tiles[i]\<close> without looking at it.
  \<open>nextClient\<close> and \<open>nextKwinTile\<close> are the identities of the next new \<^verbatim>\<open>Client\<close> and of the
  next new live tile; \<open>splitGeometry\<close> is the geometry the host gives the tiles of a split.
\<close>

record 'e State =
  engine :: 'e
  engineType :: nat
  tiles :: "(kwin_tile option, tile) BiMap"
  clients :: "(kwin_window, client) BiMap"
  untiledWindows :: "kwin_window list"
  theap :: TileHeap
  nextClient :: nat
  live :: KTile
  nextKwinTile :: nat
  splitGeometry :: SplitGeometry
  windows :: "kwin_window \<Rightarrow> Window"
  activeWindow :: "kwin_window option"
  windowExtensions :: "kwin_window \<Rightarrow> WindowExtensions option"
  managedTiles :: "kwin_tile option set"
  maximizeSingle :: bool
  logger :: "LogEntry list"

text \<open>Calling a method of the engine, and the \<^verbatim>\<open>catch\<close> block that logs.\<close>

definition engineCall ::
  "('e \<Rightarrow> TileHeap \<Rightarrow> exn option \<times> 'e \<times> TileHeap) \<Rightarrow> 'e State \<Rightarrow> exn option \<times> 'e State" where
  "engineCall f s =
     (case f (engine s) (theap s) of (r, e', h') \<Rightarrow> (r, s\<lparr>engine := e', theap := h'\<rparr>))"

definition andThen ::
  "exn option \<times> 'e State \<Rightarrow> ('e State \<Rightarrow> exn option \<times> 'e State) \<Rightarrow> exn option \<times> 'e State" where
  "andThen r g = (case r of (Some e, s) \<Rightarrow> (Some e, s) | (None, s) \<Rightarrow> g s)"

definition catchLog :: "exn option \<times> 'e State \<Rightarrow> 'e State" where
  "catchLog r =
     (case r of (None, s) \<Rightarrow> s
              | (Some e, s) \<Rightarrow> s\<lparr>logger := logger s @ [ErrorException e]\<rparr>)"

definition hasCapability :: "nat \<Rightarrow> nat \<Rightarrow> bool" where
  "hasCapability cap flag \<longleftrightarrow> (cap AND flag) = flag"

text \<open>Two states that differ at most in the engine, the abstract tiles and the log.\<close>

definition engine_only :: "'e State \<Rightarrow> 'e State \<Rightarrow> bool" where
  "engine_only s s' \<longleftrightarrow>
     engineType s' = engineType s \<and> tiles s' = tiles s \<and> clients s' = clients s \<and>
     untiledWindows s' = untiledWindows s \<and> nextClient s' = nextClient s \<and>
     live s' = live s \<and> nextKwinTile s' = nextKwinTile s \<and>
     splitGeometry s' = splitGeometry s \<and> windows s' = windows s \<and>
     activeWindow s' = activeWindow s \<and> windowExtensions s' = windowExtensions s \<and>
     managedTiles s' = managedTiles s \<and> maximizeSingle s' = maximizeSingle s"

text \<open>Both identity maps of a driver are one-to-one in both directions; \<open>both_ok\<close> is the part of
  it that the operations are shown to keep, from which the rest follows.\<close>

definition maps_one_to_one :: "'e State \<Rightarrow> bool" where
  "maps_one_to_one s \<longleftrightarrow>
     one_to_one (tiles s) \<and> one_to_one (clients s) \<and>
     injective_both (tiles s) \<and> injective_both (clients s)"

definition both_ok :: "'e State \<Rightarrow> bool" where
  "both_ok s \<longleftrightarrow> one_to_one (tiles s) \<and> one_to_one (clients s)"

text \<open>The tiles-mutable flag is among the capability bits of the active engine.\<close>

definition tilesMutable :: "'e Engine \<Rightarrow> 'e State \<Rightarrow> bool" where
  "tilesMutable ops s \<longleftrightarrow> hasCapability (e_engineCapability ops (engine s)) (TilesMutable ops)"

text \<open>
  Every abstract tile the tile map refers to is an object that exists: its identity is
  below the identity the next new tile gets.
\<close>

definition tiles_allocated :: "'e State \<Rightarrow> bool" where
  "tiles_allocated s \<longleftrightarrow> (\<forall>v \<in> fst ` set (inverse_items (tiles s)). v < next_tile (theap s))"

subsection \<open>switchEngine, addWindow, removeWindow, putWindowInTile\<close>

fun addClients :: "'e Engine \<Rightarrow> client list \<Rightarrow> 'e State \<Rightarrow> exn option \<times> 'e State" where
  "addClients ops [] s = (None, s)"
| "addClients ops (c # cs) s = andThen (engineCall (e_addClient ops c) s) (addClients ops cs)"

definition switchEngine :: "'e Engine \<Rightarrow> 'e \<Rightarrow> nat \<Rightarrow> 'e State \<Rightarrow> 'e State" where
  "switchEngine ops newEngine newEngineType s =
     (let s1 = s\<lparr>engine := newEngine, engineType := newEngineType\<rparr>
      in catchLog (andThen (addClients ops (bimap_values (clients s1)) s1)
                           (engineCall (e_buildLayout ops))))"

text \<open>\<^verbatim>\<open>new Client(window)\<close> followed by \<^verbatim>\<open>this.clients.set(window, client)\<close>.\<close>

definition registerClient :: "kwin_window \<Rightarrow> 'e State \<Rightarrow> 'e State" where
  "registerClient window s =
     s\<lparr>nextClient := Suc (nextClient s),
       clients := bimap_set window (nextClient s) (clients s)\<rparr>"

text \<open>
  The labelled block \<^verbatim>\<open>activeChecks\<close> of \<^verbatim>\<open>addWindow\<close>: it gives \<open>failedActive\<close> and, when
  the active insertion is tried, the outcome of \<^verbatim>\<open>putClientInTile(client, tile)\<close>, which is
  called outside the \<^verbatim>\<open>try\<close>.
\<close>

definition activeChecks ::
  "'e Engine \<Rightarrow> client \<Rightarrow> 'e State \<Rightarrow> bool \<times> exn option \<times> 'e State" where
  "activeChecks ops c s =
     (if e_insertionPoint ops (engine s) = Active then
        (case activeWindow s of
           None \<Rightarrow> (True, None, s)
         | Some aw \<Rightarrow>
             (case w_tile (windows s aw) of
                None \<Rightarrow> (True, None, s)
              | Some awt \<Rightarrow>
                  (case bimap_get (tiles s) (Some awt) of
                     None \<Rightarrow> (True, None, s)
                   | Some t \<Rightarrow> (False, engineCall (e_putClientInTile ops c t None) s))))
      else (True, None, s))"

definition addWindow :: "'e Engine \<Rightarrow> kwin_window \<Rightarrow> 'e State \<Rightarrow> exn option \<times> 'e State" where
  "addWindow ops window s =
     (if bimap_has (clients s) window then (None, s)
      else
        let c = nextClient s;
            s1 = registerClient window s
        in case activeChecks ops c s1 of
             (failedActive, Some e, s2) \<Rightarrow> (Some e, s2)
           | (failedActive, None, s2) \<Rightarrow>
               (None,
                catchLog (andThen (if failedActive then engineCall (e_addClient ops c) s2
                                   else (None, s2))
                                  (engineCall (e_buildLayout ops)))))"

definition removeWindow :: "'e Engine \<Rightarrow> kwin_window \<Rightarrow> 'e State \<Rightarrow> 'e State" where
  "removeWindow ops window s =
     (case bimap_get (clients s) window of
        None \<Rightarrow> s
      | Some c \<Rightarrow>
          (let s1 = s\<lparr>clients := bimap_delete window (clients s),
                      untiledWindows := untiledWindows s @ [window]\<rparr>
           in catchLog (andThen (engineCall (e_removeClient ops c) s1)
                                (engineCall (e_buildLayout ops)))))"

text \<open>The direction \<^verbatim>\<open>putWindowInTile\<close> hands to the engine (\<open>rotatedDirection\<close>).\<close>

definition rotatedDirection :: "'e Engine \<Rightarrow> 'e \<Rightarrow> nat option \<Rightarrow> nat option" where
  "rotatedDirection ops e direction =
     (case direction of
        None \<Rightarrow> None
      | Some d \<Rightarrow>
          (if e_rotateLayout ops e \<and>
              hasCapability (e_engineCapability ops e) (TranslateRotation ops)
           then Some (rotateCw ops d) else Some d))"

definition logRotation :: "'e Engine \<Rightarrow> nat option \<Rightarrow> 'e State \<Rightarrow> 'e State" where
  "logRotation ops direction s =
     (case direction of
        None \<Rightarrow> s
      | Some d \<Rightarrow>
          (if e_rotateLayout ops (engine s) \<and>
              hasCapability (e_engineCapability ops (engine s)) (TranslateRotation ops)
           then s\<lparr>logger := logger s @ [DebugRotated (rotateCw ops d)]\<rparr> else s))"

text \<open>
  The \<^verbatim>\<open>try\<close> block of \<^verbatim>\<open>putWindowInTile\<close> with its \<^verbatim>\<open>catch\<close>: the placement call with the
  direction it is given, then the layout call.
\<close>

definition placeAndBuild ::
  "'e Engine \<Rightarrow> client \<Rightarrow> tile \<Rightarrow> nat option \<Rightarrow> 'e State \<Rightarrow> 'e State" where
  "placeAndBuild ops c t direction s =
     catchLog (andThen (engineCall (e_putClientInTile ops c t direction) s)
                       (engineCall (e_buildLayout ops)))"

text \<open>
  \<^verbatim>\<open>this.clients.get(window)!\<close> is defined after the registration whenever the client map
  is one-to-one; were it not, the engine would be handed \<^verbatim>\<open>undefined\<close>, which the interface
  does not take: the model lets the \<^verbatim>\<open>try\<close> block fail there with a TypeError.
\<close>

definition putWindowInTile ::
  "'e Engine \<Rightarrow> kwin_window \<Rightarrow> kwin_tile \<Rightarrow> nat option \<Rightarrow> 'e State \<Rightarrow> 'e State" where
  "putWindowInTile ops window kwinTile direction s =
     (case bimap_get (tiles s) (Some kwinTile) of
        None \<Rightarrow> s\<lparr>logger := logger s @ [ErrorTileNotRegistered kwinTile]\<rparr>
      | Some t \<Rightarrow>
          (let s1 = (if \<not> bimap_has (clients s) window then registerClient window s else s)
           in case bimap_get (clients s1) window of
                None \<Rightarrow> catchLog (Some TypeError, s1)
              | Some c \<Rightarrow>
                  placeAndBuild ops c t (rotatedDirection ops (engine s1) direction)
                    (logRotation ops direction s1)))"

subsection \<open>buildLayout\<close>

text \<open>
  The first loop of \<^verbatim>\<open>buildLayout\<close> removes the first child of the root tile until none is
  left. Each removal makes the live tree smaller, which is why the loop ends.
\<close>

lemma k_size_remove_le: "k_size (k_remove i t) \<le> k_size t"
proof (induction t)
  case (KTile j d r a p ts)
  have "sum_list (map k_size (map (k_remove i) (filter (\<lambda>t. k_id t \<noteq> i) ts)))
        \<le> sum_list (map k_size ts)"
    using KTile
  proof (induction ts)
    case Nil
    then show ?case by simp
  next
    case (Cons t ts)
    then show ?case by (auto intro: add_mono le_SucI trans_le_add2)
  qed
  then show ?case by simp
qed

lemma k_size_pos: "0 < k_size t"
  by (cases t) simp

lemma sum_remove_list_le:
  "sum_list (map k_size (map (k_remove i) (filter (\<lambda>t. k_id t \<noteq> i) ts)))
     \<le> sum_list (map k_size ts)"
  by (induction ts) (auto intro: add_mono k_size_remove_le trans_le_add2)

lemma sum_remove_child_less:
  "c \<in> set ts \<Longrightarrow>
   sum_list (map k_size (map (k_remove (k_id c)) (filter (\<lambda>t. k_id t \<noteq> k_id c) ts)))
     < sum_list (map k_size ts)"
proof (induction ts)
  case Nil
  then show ?case by simp
next
  case (Cons t ts)
  show ?case
  proof (cases "k_id t = k_id c")
    case True
    have "sum_list (map k_size (map (k_remove (k_id c)) (filter (\<lambda>t. k_id t \<noteq> k_id c) ts)))
            \<le> sum_list (map k_size ts)"
      by (rule sum_remove_list_le)
    with True k_size_pos [of t] show ?thesis by simp
  next
    case False
    with Cons have "c \<in> set ts" by auto
    from Cons.IH [OF this] k_size_remove_le [of "k_id c" t] False show ?thesis by simp
  qed
qed

lemma k_find_remove_less:
  "k_find r t = Some n \<Longrightarrow> c \<in> set (k_tiles n) \<Longrightarrow> k_size (k_remove (k_id c) t) < k_size t"
  and k_find_list_remove_less:
  "k_find_list r ts = Some n \<Longrightarrow> c \<in> set (k_tiles n) \<Longrightarrow>
   sum_list (map k_size (map (k_remove (k_id c)) (filter (\<lambda>t. k_id t \<noteq> k_id c) ts)))
     < sum_list (map k_size ts)"
proof (induction r t and r ts arbitrary: n and n rule: k_find_k_find_list.induct)
  case (1 i j d r a p ts)
  show ?case
  proof (cases "i = j")
    case True
    with 1 have "c \<in> set ts" by auto
    then show ?thesis using sum_remove_child_less by simp
  next
    case False
    with 1 show ?thesis by simp
  qed
next
  case (2 i)
  then show ?case by simp
next
  case (3 i t ts)
  show ?case
  proof (cases "k_find i t")
    case None
    with 3 have lt: "sum_list (map k_size (map (k_remove (k_id c)) (filter (\<lambda>t. k_id t \<noteq> k_id c) ts)))
     < sum_list (map k_size ts)" by simp
    show ?thesis
    proof (cases "k_id t = k_id c")
      case True
      with lt show ?thesis by simp
    next
      case False
      with lt k_size_remove_le [of "k_id c" t] show ?thesis by simp
    qed
  next
    case (Some m)
    with 3 have lt: "k_size (k_remove (k_id c) t) < k_size t" by simp
    have le: "sum_list (map k_size (map (k_remove (k_id c)) (filter (\<lambda>t. k_id t \<noteq> k_id c) ts)))
            \<le> sum_list (map k_size ts)" by (rule sum_remove_list_le)
    show ?thesis
    proof (cases "k_id t = k_id c")
      case True
      with le k_size_pos [of t] show ?thesis by simp
    next
      case False
      with lt le show ?thesis by simp
    qed
  qed
qed

function clearRoot :: "kwin_tile \<Rightarrow> KTile \<Rightarrow> KTile" where
  "clearRoot r t =
     (case k_find r t of
        None \<Rightarrow> t
      | Some n \<Rightarrow>
          (case k_tiles n of
             [] \<Rightarrow> t
           | c # cs \<Rightarrow> clearRoot r (k_remove (k_id c) t)))"
  by pat_completeness auto
termination
  by (relation "measure (\<lambda>(r, t). k_size t)") (auto intro: k_find_remove_less)

declare clearRoot.simps [simp del]

text \<open>A host split: the new tiles get identities no live tile has had.\<close>

definition hostSplit :: "kwin_tile \<Rightarrow> nat \<Rightarrow> 'e State \<Rightarrow> 'e State" where
  "hostSplit k d s =
     (let a = max (nextKwinTile s) (Suc (k_maxid (live s)))
      in s\<lparr>live := k_split (splitGeometry s) k d a (live s), nextKwinTile := a + 2\<rparr>)"

definition setRelativeWidth :: "real \<Rightarrow> KTile \<Rightarrow> KTile" where
  "setRelativeWidth v n =
     KTile (k_id n) (k_layoutDirection n) ((k_relativeGeometry n)\<lparr>rwidth := v\<rparr>)
       (k_absoluteGeometry n) (k_padding n) (k_tiles n)"

definition setRelativeHeight :: "real \<Rightarrow> KTile \<Rightarrow> KTile" where
  "setRelativeHeight v n =
     KTile (k_id n) (k_layoutDirection n) ((k_relativeGeometry n)\<lparr>rheight := v\<rparr>)
       (k_absoluteGeometry n) (k_padding n) (k_tiles n)"

definition setLayoutDirection :: "nat \<Rightarrow> KTile \<Rightarrow> KTile" where
  "setLayoutDirection d n =
     KTile (k_id n) d (k_relativeGeometry n) (k_absoluteGeometry n) (k_padding n) (k_tiles n)"

text \<open>
  One round of the \<^verbatim>\<open>for\<close> loop over the children of an abstract tile with more than one
  child: the split, the even share for the previous sibling, the registration of live
  child \<open>i\<close>. Reading a property of \<^verbatim>\<open>kwinTile.tiles[i - 1]\<close> when there is no such tile is a
  TypeError.
\<close>

definition splitPhase :: "kwin_tile \<Rightarrow> nat \<Rightarrow> nat \<Rightarrow> 'e State \<Rightarrow> exn option \<times> 'e State" where
  "splitPhase kwinTile d i s =
     (if i = 0 then (None, hostSplit kwinTile d s)
      else if i > 1 then
        (case at_index (k_children kwinTile (live s)) (i - 1) of
           None \<Rightarrow> (Some TypeError, s)
         | Some k \<Rightarrow> (None, hostSplit k d s))
      else (None, s))"

definition sizePhase ::
  "kwin_tile \<Rightarrow> bool \<Rightarrow> nat \<Rightarrow> nat \<Rightarrow> 'e State \<Rightarrow> exn option \<times> 'e State" where
  "sizePhase kwinTile horizontal tilesLen i s =
     (if i > 0 then
        (case at_index (k_children kwinTile (live s)) (i - 1) of
           None \<Rightarrow> (Some TypeError, s)
         | Some k \<Rightarrow>
             (case k_find kwinTile (live s) of
                None \<Rightarrow> (Some TypeError, s)
              | Some n \<Rightarrow>
                  (if horizontal
                   then (None, s\<lparr>live := k_update k
                             (setRelativeWidth (rwidth (k_relativeGeometry n) / real tilesLen))
                             (live s)\<rparr>)
                   else (None, s\<lparr>live := k_update k
                             (setRelativeHeight (rheight (k_relativeGeometry n) / real tilesLen))
                             (live s)\<rparr>))))
      else (None, s))"

definition splitStep ::
  "kwin_tile \<Rightarrow> nat \<Rightarrow> bool \<Rightarrow> nat \<Rightarrow> nat \<Rightarrow> tile \<Rightarrow> 'e State \<Rightarrow> exn option \<times> 'e State" where
  "splitStep kwinTile d horizontal tilesLen i c s =
     andThen (splitPhase kwinTile d i s) (\<lambda>s1.
     andThen (sizePhase kwinTile horizontal tilesLen i s1) (\<lambda>s2.
       (None, s2\<lparr>tiles := bimap_set (at_index (k_children kwinTile (live s2)) i) c (tiles s2)\<rparr>)))"

fun splitLoop ::
  "kwin_tile \<Rightarrow> nat \<Rightarrow> bool \<Rightarrow> nat \<Rightarrow> nat \<Rightarrow> tile list \<Rightarrow> 'e State \<Rightarrow> exn option \<times> 'e State" where
  "splitLoop kwinTile d horizontal tilesLen i [] s = (None, s)"
| "splitLoop kwinTile d horizontal tilesLen i (c # cs) s =
     andThen (splitStep kwinTile d horizontal tilesLen i c s)
             (splitLoop kwinTile d horizontal tilesLen (Suc i) cs)"

text \<open>What a round of the walk ends with: on to the next tile, \<^verbatim>\<open>return\<close>, or an exception.\<close>

datatype ctl = Next | Stop | Raise exn

text \<open>The part of a round that handles the occupant of the abstract tile.\<close>

definition placeClient :: "kwin_tile \<Rightarrow> client option \<Rightarrow> 'e State \<Rightarrow> ctl \<times> 'e State" where
  "placeClient kwinTile occupant s =
     (case occupant of
        None \<Rightarrow> (Next, s)
      | Some c \<Rightarrow>
          (case bimap_inverse_get (clients s) c of
             None \<Rightarrow> (Stop, s\<lparr>logger := logger s @ [ErrorClientDoesNotExist c]\<rparr>)
           | Some w \<Rightarrow>
               (let s1 = s\<lparr>windows := (windows s)
                            (w := (windows s w)\<lparr>minimized := False, fullScreen := False\<rparr>)\<rparr>
                in case windowExtensions s1 w of
                     None \<Rightarrow> (Raise TypeError, s1)
                   | Some ext \<Rightarrow>
                       (let s2 = (if maximized ext
                                  then s1\<lparr>windows := (windows s1)
                                         (w := (windows s1 w)\<lparr>maximizeMode := (False, False)\<rparr>)\<rparr>
                                  else s1);
                            s3 = s2\<lparr>windows := (windows s2)
                                      (w := (windows s2 w)\<lparr>w_tile := Some kwinTile\<rparr>)\<rparr>
                        in case k_find kwinTile (live s3) of
                             None \<Rightarrow> (Raise TypeError, s3)
                           | Some n \<Rightarrow>
                               (Next, s3\<lparr>windowExtensions := (windowExtensions s3)
                                  (w := Some (ext\<lparr>lastTiledLocation :=
                                            Some (centerOfRect (k_absoluteGeometry n))\<rparr>))\<rparr>)))))"

text \<open>
  One round of the \<^verbatim>\<open>while\<close> loop over the queue, for the dequeued abstract tile \<open>t\<close>. It
  gives the tiles it enqueued. \<^verbatim>\<open>this.tiles.inverse.get(tile)!\<close> may be \<^verbatim>\<open>undefined\<close>, which
  is added to \<^verbatim>\<open>managedTiles\<close> before the write to its \<^verbatim>\<open>layoutDirection\<close> throws.
\<close>

definition visitTile :: "tile \<Rightarrow> 'e State \<Rightarrow> ctl \<times> tile list \<times> 'e State" where
  "visitTile t s =
     (let kwinTile = (case bimap_inverse_get (tiles s) t of Some (Some k) \<Rightarrow> Some k | _ \<Rightarrow> None);
          s1 = s\<lparr>managedTiles := insert kwinTile (managedTiles s)\<rparr>
      in case kwinTile of
           None \<Rightarrow> (Raise TypeError, [], s1)
         | Some k \<Rightarrow>
             (case k_find k (live s1) of
                None \<Rightarrow> (Raise TypeError, [], s1)
              | Some n \<Rightarrow>
                  (let tobj = objs (theap s1) t;
                       d = t_layoutDirection tobj;
                       s2 = s1\<lparr>live := k_update k (setLayoutDirection d) (live s1)\<rparr>;
                       horizontal = (d = 1);
                       tilesLen = length (t_tiles tobj);
                       (r, enq) =
                         (if tilesLen > 1
                          then (splitLoop k d horizontal tilesLen 0 (t_tiles tobj) s2, t_tiles tobj)
                          else if tilesLen = 1
                          then ((None, s2\<lparr>tiles := bimap_set (Some k) (t_tiles tobj ! 0) (tiles s2)\<rparr>),
                                [t_tiles tobj ! 0])
                          else ((None, s2), []))
                   in case r of
                        (Some e, s3) \<Rightarrow> (Raise e, enq, s3)
                      | (None, s3) \<Rightarrow>
                          (case placeClient k (t_client tobj) s3 of (c, s4) \<Rightarrow> (c, enq, s4)))))"

text \<open>
  The \<^verbatim>\<open>while\<close> loop over the queue. \<open>None\<close> is a walk that does not end: the abstract
  tiles are objects that refer to each other, and a walk over a cyclic structure goes on
  for ever.
\<close>

partial_function (option) buildLoop :: "tile list \<Rightarrow> 'e State \<Rightarrow> (ctl \<times> 'e State) option" where
  "buildLoop q s =
     (case q of
        [] \<Rightarrow> Some (Next, s)
      | t # q' \<Rightarrow>
          (case visitTile t s of
             (Next, enq, s') \<Rightarrow> buildLoop (q' @ enq) s'
           | (Stop, enq, s') \<Rightarrow> Some (Stop, s')
           | (Raise e, enq, s') \<Rightarrow> Some (Raise e, s')))"

text \<open>The descent from the engine's root tile to the real root.\<close>

partial_function (option) realRootTile :: "TileHeap \<Rightarrow> tile \<Rightarrow> tile option" where
  "realRootTile h t =
     (if length (t_tiles (objs h t)) = 1 \<and> t_client (objs h t) = None
      then realRootTile h (t_tiles (objs h t) ! 0)
      else Some t)"

text \<open>The untiled windows: the windows of the engine's untiled clients that are tracked.\<close>

fun untiledOf :: "(kwin_window, client) BiMap \<Rightarrow> client list \<Rightarrow> kwin_window list" where
  "untiledOf m [] = []"
| "untiledOf m (c # cs) =
     (case bimap_inverse_get m c of
        None \<Rightarrow> untiledOf m cs
      | Some w \<Rightarrow> w # untiledOf m cs)"

text \<open>\<^verbatim>\<open>fixSizing\<close> is a stub.\<close>

definition fixSizing :: "tile \<Rightarrow> kwin_tile \<Rightarrow> 'e State \<Rightarrow> 'e State" where
  "fixSizing rootTile kwinRootTile s = s"

text \<open>The maximize shortcut for a real root that holds a client.\<close>

definition maximizeRoot :: "client \<Rightarrow> 'e State \<Rightarrow> 'e State" where
  "maximizeRoot c s =
     (case bimap_inverse_get (clients s) c of
        None \<Rightarrow> s
      | Some w \<Rightarrow>
          s\<lparr>windows := (windows s)
              (w := (windows s w)\<lparr>w_tile := None, maximizeMode := (True, True)\<rparr>)\<rparr>)"

text \<open>The construction of the live tree from the real root, and the sizing pass.\<close>

definition buildTree :: "kwin_tile \<Rightarrow> tile \<Rightarrow> 'e State \<Rightarrow> (exn option \<times> 'e State) option" where
  "buildTree rootTile realRoot s =
     (case buildLoop [realRoot] (s\<lparr>tiles := bimap_set (Some rootTile) realRoot (tiles s)\<rparr>) of
        None \<Rightarrow> None
      | Some (Next, s') \<Rightarrow> Some (None, fixSizing realRoot rootTile s')
      | Some (Stop, s') \<Rightarrow> Some (None, s')
      | Some (Raise e, s') \<Rightarrow> Some (Some e, s'))"

text \<open>
  \<^verbatim>\<open>buildLayout(rootTile)\<close>. \<open>None\<close> is a run that does not end. A reference to a live tile
  that is not in the live tree is a destroyed tile, and reading its children is a
  TypeError.
\<close>

definition buildLayout ::
  "'e Engine \<Rightarrow> kwin_tile \<Rightarrow> 'e State \<Rightarrow> (exn option \<times> 'e State) option" where
  "buildLayout ops rootTile s =
     (case k_find rootTile (live s) of
        None \<Rightarrow> Some (Some TypeError, s)
      | Some n0 \<Rightarrow>
          (let s1 = s\<lparr>live := clearRoot rootTile (live s)\<rparr>;
               s2 = s1\<lparr>tiles := bimap_empty, untiledWindows := []\<rparr>;
               s3 = s2\<lparr>untiledWindows := untiledOf (clients s2) (e_untiledClients ops (engine s2))\<rparr>
           in case realRootTile (theap s3) (e_rootTile ops (engine s3)) of
                None \<Rightarrow> None
              | Some realRoot \<Rightarrow>
                  (case t_client (objs (theap s3) realRoot) of
                     Some c \<Rightarrow>
                       (if maximizeSingle s3 then Some (None, maximizeRoot c s3)
                        else buildTree rootTile realRoot s3)
                   | None \<Rightarrow> buildTree rootTile realRoot s3)))"

subsection \<open>regenerateLayout\<close>

lemma tile_remove_length:
  "length (t_tiles (objs (tile_remove c h) t)) \<le> length (t_tiles (objs h t))"
  by (auto simp: tile_remove_def Let_def length_remove1 split: option.splits)

text \<open>
  The loop over \<^verbatim>\<open>tile.tiles\<close> that destroys abstract children with no live counterpart.
  \<^verbatim>\<open>Tile.remove\<close> changes the array the loop runs over, so the loop is written with the
  index of the array iterator.
\<close>

definition destroyChild :: "tile \<Rightarrow> 'e State \<Rightarrow> 'e State" where
  "destroyChild child s =
     (if bimap_inverse_get (tiles s) child = None \<or> bimap_inverse_get (tiles s) child = Some None
      then s\<lparr>tiles := bimap_inverse_delete child (tiles s),
             theap := tile_remove child (theap s)\<rparr>
      else s)"

lemma destroyChild_length:
  "length (t_tiles (objs (theap (destroyChild c s)) t)) \<le> length (t_tiles (objs (theap s) t))"
  by (simp add: destroyChild_def tile_remove_length)

function destroyLoop :: "tile \<Rightarrow> nat \<Rightarrow> 'e State \<Rightarrow> 'e State" where
  "destroyLoop t i s =
     (if i < length (t_tiles (objs (theap s) t))
      then destroyLoop t (Suc i) (destroyChild (t_tiles (objs (theap s) t) ! i) s)
      else s)"
  by pat_completeness auto
termination
proof (relation "measure (\<lambda>(t, i, s). length (t_tiles (objs (theap s) t)) - i)")
  show "wf (measure (\<lambda>(t, i, s :: 'e State). length (t_tiles (objs (theap s) t)) - i))"
    by simp
next
  fix t :: tile and i :: nat and s :: "'e State"
  assume "i < length (t_tiles (objs (theap s) t))"
  with destroyChild_length [of "t_tiles (objs (theap s) t) ! i" s t]
  show "((t, Suc i, destroyChild (t_tiles (objs (theap s) t) ! i) s), (t, i, s))
          \<in> measure (\<lambda>(t, i, s). length (t_tiles (objs (theap s) t)) - i)"
    by simp
qed

declare destroyLoop.simps [simp del]

text \<open>The loop over \<^verbatim>\<open>kwinTile.tiles\<close> that creates abstract children for unregistered live tiles.\<close>

fun createLoop :: "tile \<Rightarrow> kwin_tile list \<Rightarrow> 'e State \<Rightarrow> 'e State" where
  "createLoop t [] s = s"
| "createLoop t (child # cs) s =
     createLoop t cs
       (if \<not> bimap_has (tiles s) (Some child)
        then (case tile_addChild t (theap s) of
                (newTile, h') \<Rightarrow> s\<lparr>theap := h', tiles := bimap_set (Some child) newTile (tiles s)\<rparr>)
        else s)"

text \<open>One round of the walk, for a live tile \<open>kt\<close> whose abstract counterpart is \<open>t\<close>.\<close>

definition setRequestedSize :: "tile \<Rightarrow> GSize \<Rightarrow> TileHeap \<Rightarrow> TileHeap" where
  "setRequestedSize t sz h = h\<lparr>objs := (objs h)(t := (objs h t)\<lparr>t_requestedSize := Some sz\<rparr>)\<rparr>"

definition regenerateTile :: "'e Engine \<Rightarrow> KTile \<Rightarrow> tile \<Rightarrow> 'e State \<Rightarrow> 'e State" where
  "regenerateTile ops kt t s =
     (let s1 = s\<lparr>theap := setRequestedSize t (fromRect (k_absoluteGeometry kt)) (theap s)\<rparr>
      in if hasCapability (e_engineCapability ops (engine s1)) (TilesMutable ops)
         then createLoop t (map k_id (k_tiles kt)) (destroyLoop t 0 s1)
         else s1)"

lemma k_size_list_pos: "sum_list (map k_size (k_tiles kt)) < k_size kt"
  by (cases kt) simp

function regenerateWalk :: "'e Engine \<Rightarrow> KTile list \<Rightarrow> 'e State \<Rightarrow> 'e State" where
  "regenerateWalk ops [] s = s"
| "regenerateWalk ops (kt # q) s =
     (case bimap_get (tiles s) (Some (k_id kt)) of
        None \<Rightarrow> regenerateWalk ops q (s\<lparr>logger := logger s @ [ErrorTileNotRegistered (k_id kt)]\<rparr>)
      | Some t \<Rightarrow> regenerateWalk ops (q @ k_tiles kt) (regenerateTile ops kt t s))"
  by pat_completeness auto
termination
  by (relation "measure (\<lambda>(ops, q, s). sum_list (map k_size q))")
     (auto simp: k_size_list_pos k_size_pos)

text \<open>
  \<^verbatim>\<open>regenerateLayout(rootTile)\<close>: the walk over the live tree below \<open>rootTile\<close>, then the
  engine's own regeneration and layout inside \<^verbatim>\<open>try\<close>. A root tile that is not in the live
  tree is a destroyed tile, and reading its geometry is a TypeError.
\<close>

definition regenerateLayout ::
  "'e Engine \<Rightarrow> kwin_tile \<Rightarrow> 'e State \<Rightarrow> exn option \<times> 'e State" where
  "regenerateLayout ops rootTile s =
     (case k_find rootTile (live s) of
        None \<Rightarrow> (Some TypeError, s)
      | Some n \<Rightarrow>
          (None,
           catchLog (andThen (engineCall (e_regenerateLayout ops) (regenerateWalk ops [n] s))
                             (engineCall (e_buildLayout ops)))))"

text \<open>Predicates for the walk: what it removes, what it keeps and what it creates.\<close>

text \<open>
  The test \<^verbatim>\<open>this.tiles.inverse.get(child) == null\<close> of the destroying loop: the abstract
  tile has no entry in the inverse map, or its entry is \<^verbatim>\<open>undefined\<close>.
\<close>

definition lacksLive :: "(kwin_tile option, tile) BiMap \<Rightarrow> tile \<Rightarrow> bool" where
  "lacksLive m c \<longleftrightarrow> bimap_inverse_get m c = None \<or> bimap_inverse_get m c = Some None"


text \<open>The body of the creating loop for a live child that has no entry: \<^verbatim>\<open>tile.addChild()\<close> and \<^verbatim>\<open>this.tiles.set\<close>.\<close>

definition createChild :: "tile \<Rightarrow> kwin_tile \<Rightarrow> 'e State \<Rightarrow> 'e State" where
  "createChild t k s =
     s\<lparr>theap := snd (tile_addChild t (theap s)),
       tiles := bimap_set (Some k) (fst (tile_addChild t (theap s))) (tiles s)\<rparr>"




subsection \<open>An engine and states to run the driver on\<close>

text \<open>
  A small engine whose state is the list of the clients it holds. Its placement call
  throws when \<open>failing\<close> is set; the other parameters are its insertion policy, its rotation
  setting and its capability bits.
\<close>

definition stub_engine :: "bool \<Rightarrow> InsertionPoint \<Rightarrow> bool \<Rightarrow> nat \<Rightarrow> (client list) Engine" where
  "stub_engine failing ip rot cap =
     \<lparr>e_addClient = (\<lambda>c e h. (None, e @ [c], h)),
      e_removeClient = (\<lambda>c e h. (None, removeAll c e, h)),
      e_putClientInTile = (\<lambda>c t d e h.
         if failing then (Some (EngineError 1), e, h) else (None, e @ [c], h)),
      e_buildLayout = (\<lambda>e h. (None, e, h)),
      e_regenerateLayout = (\<lambda>e h. (None, e, h)),
      e_engineCapability = (\<lambda>e. cap),
      e_insertionPoint = (\<lambda>e. ip),
      e_rotateLayout = (\<lambda>e. rot),
      e_rootTile = (\<lambda>e. 0),
      e_untiledClients = (\<lambda>e. e),
      TranslateRotation = 1,
      TilesMutable = 2,
      rotateCw = (\<lambda>d. (d + 1) mod 4)\<rparr>"

definition unit_rect :: QRect where
  "unit_rect = \<lparr>rx = 0, ry = 0, rwidth = 1, rheight = 1\<rparr>"

definition leaf_obj :: TileObj where
  "leaf_obj = \<lparr>t_parent = None, t_tiles = [], t_layoutDirection = 1, t_client = None,
               t_requestedSize = None\<rparr>"

definition plain_window :: Window where
  "plain_window = \<lparr>w_tile = None, frameGeometry = unit_rect, minimized = False,
                   fullScreen = False, maximizeMode = (False, False)\<rparr>"

text \<open>
  A state with the abstract tiles \<open>h\<close>, the tile map \<open>tm\<close>, the client map \<open>cm\<close>, the live
  tree \<open>lv\<close> and the setting \<open>ms\<close> of "maximize single window"; window 1 is active and
  assigned to live tile 10, and every window has an extension record.
\<close>

definition stub_state ::
  "TileHeap \<Rightarrow> (kwin_tile option, tile) BiMap \<Rightarrow> (kwin_window, client) BiMap \<Rightarrow> KTile \<Rightarrow> bool
     \<Rightarrow> (client list) State" where
  "stub_state h tm cm lv ms =
     \<lparr>engine = [], engineType = 0, tiles = tm, clients = cm, untiledWindows = [],
      theap = h, nextClient = 9, live = lv, nextKwinTile = 20, splitGeometry = evenSplit,
      windows = (\<lambda>w. plain_window)(1 := plain_window\<lparr>w_tile := Some 10\<rparr>),
      activeWindow = Some 1,
      windowExtensions = (\<lambda>w. Some \<lparr>maximized = False, lastTiledLocation = None\<rparr>),
      managedTiles = {}, maximizeSingle = ms, logger = []\<rparr>"

definition leaf_heap :: TileHeap where
  "leaf_heap = \<lparr>objs = (\<lambda>t. leaf_obj), next_tile = 1\<rparr>"

definition root_only :: KTile where
  "root_only = KTile 10 1 unit_rect unit_rect 0 []"

definition root_registered :: "(kwin_tile option, tile) BiMap" where
  "root_registered = \<lparr>items = [(Some 10, 0)], inverse_items = [(0, Some 10)]\<rparr>"

text \<open>
  Further examples: abstract tiles whose root holds client \<open>c\<close>; a client map with window 2
  and client 5; a live root 10 with the child 11; abstract tiles with root 0 and the
  leaves 7 and 8, which hold clients 5 and 6; a client map with windows 2 and 3.
\<close>

definition occupied_heap :: "client \<Rightarrow> TileHeap" where
  "occupied_heap c = \<lparr>objs = (\<lambda>t. leaf_obj)(0 := leaf_obj\<lparr>t_client := Some c\<rparr>), next_tile = 1\<rparr>"

definition one_client :: "(kwin_window, client) BiMap" where
  "one_client = \<lparr>items = [(2, 5)], inverse_items = [(5, 2)]\<rparr>"

definition root_with_child :: KTile where
  "root_with_child = KTile 10 1 unit_rect unit_rect 0 [KTile 11 1 unit_rect unit_rect 0 []]"

definition siblings_heap :: TileHeap where
  "siblings_heap =
     \<lparr>objs = (\<lambda>t. leaf_obj)
        (0 := leaf_obj\<lparr>t_tiles := [7, 8]\<rparr>,
         7 := leaf_obj\<lparr>t_parent := Some 0, t_client := Some 5\<rparr>,
         8 := leaf_obj\<lparr>t_parent := Some 0, t_client := Some 6\<rparr>),
      next_tile = 9\<rparr>"

definition two_clients :: "(kwin_window, client) BiMap" where
  "two_clients = \<lparr>items = [(2, 5), (3, 6)], inverse_items = [(5, 2), (6, 3)]\<rparr>"

text \<open>A tile map in which the abstract tile 8 is the counterpart of the live tile 11.\<close>

definition child_registered :: "(kwin_tile option, tile) BiMap" where
  "child_registered = \<lparr>items = [(Some 10, 0), (Some 11, 8)],
                        inverse_items = [(0, Some 10), (8, Some 11)]\<rparr>"

section \<open>Properties\<close>

subsection \<open>Lemmas about the bidirectional map\<close>

lemma update_append_new: "k \<notin> fst ` set al \<Longrightarrow> AList.update k v al = al @ [(k, v)]"
  by (induction al) auto

lemma delete_append_new: "k \<notin> fst ` set al \<Longrightarrow> AList.delete k (al @ [(k, v)]) = al"
  by (induction al) (auto simp: AList.delete_eq)

lemma map_of_None_iff: "map_of al k = None \<longleftrightarrow> k \<notin> fst ` set al"
  by (simp add: map_of_eq_None_iff)

lemma bimap_set_new:
  assumes "\<not> bimap_has m k" and "v \<notin> fst ` set (inverse_items m)"
  shows "bimap_set k v m
           = \<lparr>items = items m @ [(k, v)], inverse_items = inverse_items m @ [(v, k)]\<rparr>"
proof -
  from assms have k: "map_of (items m) k = None" and k': "k \<notin> fst ` set (items m)"
    by (simp_all add: bimap_has_def map_of_None_iff)
  from assms have v: "map_of (inverse_items m) v = None"
    by (simp add: map_of_None_iff)
  show ?thesis
    by (simp add: bimap_set_def k v Let_def update_append_new [OF k']
        update_append_new [OF assms(2)])
qed

lemma bimap_delete_new:
  assumes "\<not> bimap_has m k" and "v \<notin> fst ` set (inverse_items m)"
  shows "bimap_delete k \<lparr>items = items m @ [(k, v)], inverse_items = inverse_items m @ [(v, k)]\<rparr>
           = m"
proof -
  from assms have k: "map_of (items m) k = None" and k': "k \<notin> fst ` set (items m)"
    by (simp_all add: bimap_has_def map_of_None_iff)
  have "map_of (items m @ [(k, v)]) k = Some v"
    by (simp add: map_add_def k)
  then show ?thesis
    by (simp add: bimap_delete_def delete_append_new [OF k'] delete_append_new [OF assms(2)])
qed

lemma one_to_one_injective: "one_to_one m \<Longrightarrow> injective_both m"
  unfolding one_to_one_def injective_both_def bimap_get_def bimap_inverse_get_def
  by (metis option.inject)

lemma one_to_one_inj_values:
  assumes "\<And>a b. map_of xs a = Some b \<longleftrightarrow> map_of ys b = Some a"
  shows "map_of ys b = Some a \<Longrightarrow> map_of ys b' = Some a \<Longrightarrow> b = b'"
  using assms by (metis option.inject)

lemma one_to_one_inj_keys:
  assumes "\<And>a b. map_of xs a = Some b \<longleftrightarrow> map_of ys b = Some a"
  shows "map_of xs a = Some b \<Longrightarrow> map_of xs a' = Some b \<Longrightarrow> a = a'"
  using assms by (metis option.inject)

lemma one_to_one_empty [simp]: "one_to_one bimap_empty"
  by (simp add: one_to_one_def bimap_empty_def)

lemma one_to_one_set:
  assumes "one_to_one m"
  shows "one_to_one (bimap_set k v m)"
proof (cases "map_of (items m) k = Some v")
  case True
  with assms show ?thesis by (simp add: bimap_set_def)
next
  case False
  from assms have d1: "distinct (map fst (items m))" and d2: "distinct (map fst (inverse_items m))"
    and eq: "\<And>a b. map_of (items m) a = Some b \<longleftrightarrow> map_of (inverse_items m) b = Some a"
    by (simp_all add: one_to_one_def)
  define inv1 where "inv1 = (case map_of (items m) k of Some cv \<Rightarrow> AList.delete cv (inverse_items m)
                              | None \<Rightarrow> inverse_items m)"
  define its1 where "its1 = (case map_of inv1 v of Some k' \<Rightarrow> AList.delete k' (items m)
                                  | None \<Rightarrow> items m)"
  have g1: "map_of inv1 = (case map_of (items m) k of Some cv \<Rightarrow> (map_of (inverse_items m))(cv := None)
                              | None \<Rightarrow> map_of (inverse_items m))"
    by (simp add: inv1_def delete_conv' split: option.splits)
  have f1: "map_of its1 = (case map_of inv1 v of Some k' \<Rightarrow> (map_of (items m))(k' := None)
                              | None \<Rightarrow> map_of (items m))"
    by (simp add: its1_def delete_conv' split: option.splits)
  have nk: "map_of inv1 v \<noteq> Some k"
    using False eq by (auto simp: g1 split: option.splits if_splits)
  have dd1: "distinct (map fst its1)" using d1
    by (simp add: its1_def distinct_delete split: option.splits)
  have dd2: "distinct (map fst inv1)" using d2
    by (simp add: inv1_def distinct_delete split: option.splits)
  have res: "bimap_set k v m = \<lparr>items = AList.update k v its1, inverse_items = AList.update v k inv1\<rparr>"
    using False nk by (simp add: bimap_set_def Let_def inv1_def [symmetric] its1_def [symmetric])
  have G: "map_of inv1 b = (if map_of (items m) k = Some b then None else map_of (inverse_items m) b)" for b
    by (simp add: g1 split: option.splits)
  have F: "map_of its1 a = (if map_of inv1 v = Some a then None else map_of (items m) a)" for a
    by (simp add: f1 split: option.splits)
  have iv: "map_of inv1 v = map_of (inverse_items m) v"
    using False by (simp add: G)
  have "((map_of its1)(k \<mapsto> v)) a = Some b \<longleftrightarrow> ((map_of inv1)(v \<mapsto> k)) b = Some a" for a b
  proof (cases "a = k")
    case ak: True
    show ?thesis
    proof (cases "b = v")
      case True
      with ak show ?thesis by simp
    next
      case bv: False
      have "map_of inv1 b \<noteq> Some k"
        using eq [of k b] by (simp add: G)
      with ak bv show ?thesis by auto
    qed
  next
    case ak: False
    show ?thesis
    proof (cases "b = v")
      case True
      have "map_of its1 a \<noteq> Some v"
        using eq [of a v] by (simp add: F iv)
      with ak True show ?thesis by auto
    next
      case bv: False
      have "map_of its1 a = Some b \<longleftrightarrow> map_of (items m) a = Some b"
      proof -
        have "map_of (items m) a = Some b \<Longrightarrow> map_of (inverse_items m) v \<noteq> Some a"
          using eq [of a v] bv by auto
        then show ?thesis by (auto simp: F iv)
      qed
      moreover have "map_of inv1 b = Some a \<longleftrightarrow> map_of (inverse_items m) b = Some a"
      proof -
        have "map_of (inverse_items m) b = Some a \<Longrightarrow> map_of (items m) k \<noteq> Some b"
          using eq [of k b] ak by auto
        then show ?thesis by (auto simp: G)
      qed
      ultimately show ?thesis using ak bv eq [of a b] by simp
    qed
  qed
  then show ?thesis
    by (simp add: res one_to_one_def distinct_update dd1 dd2 update_conv')
qed

lemma one_to_one_delete:
  assumes "one_to_one m"
  shows "one_to_one (bimap_delete k m)"
proof (cases "map_of (items m) k")
  case None
  with assms show ?thesis by (simp add: bimap_delete_def)
next
  case (Some cv)
  from assms have d1: "distinct (map fst (items m))" and d2: "distinct (map fst (inverse_items m))"
    and eq: "\<And>a b. map_of (items m) a = Some b \<longleftrightarrow> map_of (inverse_items m) b = Some a"
    by (simp_all add: one_to_one_def)
  have res: "bimap_delete k m = \<lparr>items = AList.delete k (items m),
                                  inverse_items = AList.delete cv (inverse_items m)\<rparr>"
    using Some by (simp add: bimap_delete_def)
  have "\<And>a b. ((map_of (items m))(k := None)) a = Some b
           \<longleftrightarrow> ((map_of (inverse_items m))(cv := None)) b = Some a"
    using eq Some one_to_one_inj_values [of "items m" "inverse_items m", OF eq]
      one_to_one_inj_keys [of "items m" "inverse_items m", OF eq]
    by auto
  then show ?thesis
    by (simp add: res one_to_one_def distinct_delete d1 d2 delete_conv')
qed

lemma one_to_one_inverse_delete:
  assumes "one_to_one m"
  shows "one_to_one (bimap_inverse_delete v m)"
proof (cases "map_of (inverse_items m) v")
  case None
  with assms show ?thesis by (simp add: bimap_inverse_delete_def)
next
  case (Some ck)
  from assms have d1: "distinct (map fst (items m))" and d2: "distinct (map fst (inverse_items m))"
    and eq: "\<And>a b. map_of (items m) a = Some b \<longleftrightarrow> map_of (inverse_items m) b = Some a"
    by (simp_all add: one_to_one_def)
  have res: "bimap_inverse_delete v m = \<lparr>items = AList.delete ck (items m),
                                  inverse_items = AList.delete v (inverse_items m)\<rparr>"
    using Some by (simp add: bimap_inverse_delete_def)
  have "\<And>a b. ((map_of (items m))(ck := None)) a = Some b
           \<longleftrightarrow> ((map_of (inverse_items m))(v := None)) b = Some a"
    using eq Some one_to_one_inj_values [of "items m" "inverse_items m", OF eq]
      one_to_one_inj_keys [of "items m" "inverse_items m", OF eq]
    by auto
  then show ?thesis
    by (simp add: res one_to_one_def distinct_delete d1 d2 delete_conv')
qed

subsection \<open>What the engine calls leave alone\<close>

lemma engine_only_refl [simp]: "engine_only s s"
  by (simp add: engine_only_def)

lemma engine_only_trans: "engine_only s s' \<Longrightarrow> engine_only s' s'' \<Longrightarrow> engine_only s s''"
  by (simp add: engine_only_def)

lemma engine_only_engineCall: "engine_only s (snd (engineCall f s))"
  by (simp add: engine_only_def engineCall_def split: prod.splits)

lemma engine_only_andThen:
  assumes "engine_only s (snd r)" and "\<And>s'. engine_only s' (snd (g s'))"
  shows "engine_only s (snd (andThen r g))"
proof (cases r)
  case (Pair x s1)
  show ?thesis
  proof (cases x)
    case None
    with Pair assms(1) assms(2) [of s1] show ?thesis
      by (auto simp: andThen_def intro: engine_only_trans)
  next
    case (Some e)
    with Pair assms(1) show ?thesis by (simp add: andThen_def)
  qed
qed

lemma engine_only_catchLog: "engine_only s (snd r) \<Longrightarrow> engine_only s (catchLog r)"
  by (cases r) (auto simp: catchLog_def engine_only_def split: option.splits)

lemma engine_only_addClients: "engine_only s (snd (addClients ops cs s))"
proof (induction cs arbitrary: s)
  case Nil
  then show ?case by simp
next
  case (Cons c cs)
  show ?case
    by (simp, rule engine_only_andThen [OF engine_only_engineCall]) (rule Cons.IH)
qed

lemma engine_only_activeChecks: "engine_only s (snd (snd (activeChecks ops c s)))"
  by (auto simp: activeChecks_def engine_only_engineCall split: option.splits)

lemma addWindow_new:
  assumes "\<not> bimap_has (clients s) window"
  shows "engine_only (registerClient window s) (snd (addWindow ops window s))"
proof -
  let ?s1 = "registerClient window s"
  obtain fa x s2 where ac: "activeChecks ops (nextClient s) ?s1 = (fa, x, s2)"
    by (cases "activeChecks ops (nextClient s) ?s1") auto
  with engine_only_activeChecks [of ?s1 ops "nextClient s"]
  have e2: "engine_only ?s1 s2" by simp
  show ?thesis
  proof (cases x)
    case (Some e)
    with assms ac e2 show ?thesis by (simp add: addWindow_def Let_def)
  next
    case None
    have "engine_only s2
            (catchLog (andThen (if fa then engineCall (e_addClient ops (nextClient s)) s2
                                else (None, s2))
                               (engineCall (e_buildLayout ops))))"
      by (rule engine_only_catchLog, rule engine_only_andThen)
         (auto simp: engine_only_engineCall)
    with assms ac e2 None show ?thesis
      by (auto simp: addWindow_def Let_def intro: engine_only_trans)
  qed
qed

lemma removeWindow_tracked:
  assumes "bimap_get (clients s) window = Some c"
  shows "engine_only (s\<lparr>clients := bimap_delete window (clients s),
                        untiledWindows := untiledWindows s @ [window]\<rparr>)
                     (removeWindow ops window s)"
  using assms
  by (simp add: removeWindow_def Let_def)
     (rule engine_only_catchLog, rule engine_only_andThen, auto simp: engine_only_engineCall)

subsection \<open>Lemmas about the example engine and states\<close>

lemmas stub_simps = stub_engine_def stub_state_def leaf_heap_def root_only_def
  root_registered_def bimap_get_def bimap_has_def bimap_set_def bimap_empty_def
  registerClient_def engineCall_def andThen_def catchLog_def logRotation_def hasCapability_def

lemma k_remove_id [simp]: "k_id (k_remove i t) = k_id t"
  by (cases t) simp

lemma clearRoot_id [simp]: "k_id (clearRoot r t) = k_id t"
proof (induction r t rule: clearRoot.induct)
  case (1 r t)
  show ?case
  proof (cases "k_find r t")
    case None
    then show ?thesis by (subst clearRoot.simps) simp
  next
    case (Some n)
    show ?thesis
    proof (cases "k_tiles n")
      case Nil
      with Some show ?thesis by (subst clearRoot.simps) simp
    next
      case (Cons c cs)
      with Some 1 [OF Some Cons] show ?thesis by (subst clearRoot.simps) simp
    qed
  qed
qed

lemma clearRoot_children [simp]: "k_children r (clearRoot r t) = []"
proof (induction r t rule: clearRoot.induct)
  case (1 r t)
  show ?case
  proof (cases "k_find r t")
    case None
    then show ?thesis by (subst clearRoot.simps) (simp add: k_children_def)
  next
    case (Some n)
    show ?thesis
    proof (cases "k_tiles n")
      case Nil
      with Some show ?thesis by (subst clearRoot.simps) (simp add: k_children_def)
    next
      case (Cons c cs)
      with Some 1 [OF Some Cons] show ?thesis by (subst clearRoot.simps) simp
    qed
  qed
qed

lemma realRoot_occupied: "realRootTile (occupied_heap c) 0 = Some 0"
  by (subst realRootTile.simps) (simp add: occupied_heap_def leaf_obj_def)

lemma clear_root_with_child: "clearRoot 10 root_with_child = root_only"
  by (subst clearRoot.simps, simp add: root_with_child_def root_only_def)
     (subst clearRoot.simps, simp)

lemma stub_state_fields [simp]:
  "engine (stub_state h tm cm lv ms) = []"
  "tiles (stub_state h tm cm lv ms) = tm"
  "clients (stub_state h tm cm lv ms) = cm"
  "untiledWindows (stub_state h tm cm lv ms) = []"
  "theap (stub_state h tm cm lv ms) = h"
  "nextClient (stub_state h tm cm lv ms) = 9"
  "live (stub_state h tm cm lv ms) = lv"
  "nextKwinTile (stub_state h tm cm lv ms) = 20"
  "splitGeometry (stub_state h tm cm lv ms) = evenSplit"
  "activeWindow (stub_state h tm cm lv ms) = Some 1"
  "managedTiles (stub_state h tm cm lv ms) = {}"
  "maximizeSingle (stub_state h tm cm lv ms) = ms"
  "logger (stub_state h tm cm lv ms) = []"
  by (simp_all add: stub_state_def)

lemma stub_engine_fields [simp]:
  "e_rootTile (stub_engine f ip rot cap) e = 0"
  "e_untiledClients (stub_engine f ip rot cap) e = e"
  "e_engineCapability (stub_engine f ip rot cap) e = cap"
  "TilesMutable (stub_engine f ip rot cap) = 2"
  by (simp_all add: stub_engine_def)

subsection \<open>The identity maps under the operations\<close>

lemma maps_one_to_one_iff: "maps_one_to_one s \<longleftrightarrow> both_ok s"
  by (auto simp: maps_one_to_one_def both_ok_def one_to_one_injective)

lemma both_ok_engine_only: "engine_only s s' \<Longrightarrow> both_ok s \<Longrightarrow> both_ok s'"
  by (simp add: engine_only_def both_ok_def)

lemma both_ok_registerClient: "both_ok s \<Longrightarrow> both_ok (registerClient w s)"
  by (simp add: both_ok_def registerClient_def one_to_one_set)

lemma both_ok_addWindow: "both_ok s \<Longrightarrow> both_ok (snd (addWindow ops w s))"
proof (cases "bimap_has (clients s) w")
  case True
  then show "both_ok s \<Longrightarrow> ?thesis" by (simp add: addWindow_def)
next
  case False
  assume "both_ok s"
  then have "both_ok (registerClient w s)" by (rule both_ok_registerClient)
  with addWindow_new [OF False, of ops] show ?thesis by (rule both_ok_engine_only)
qed

lemma both_ok_removeWindow: "both_ok s \<Longrightarrow> both_ok (removeWindow ops w s)"
proof (cases "bimap_get (clients s) w")
  case None
  then show "both_ok s \<Longrightarrow> ?thesis" by (simp add: removeWindow_def)
next
  case (Some c)
  assume "both_ok s"
  then have "both_ok (s\<lparr>clients := bimap_delete w (clients s),
                        untiledWindows := untiledWindows s @ [w]\<rparr>)"
    by (simp add: both_ok_def one_to_one_delete)
  with removeWindow_tracked [OF Some, of ops] show ?thesis by (rule both_ok_engine_only)
qed

lemma engine_only_placeAndBuild: "engine_only s (placeAndBuild ops c t d s)"
  unfolding placeAndBuild_def
  by (rule engine_only_catchLog, rule engine_only_andThen) (auto simp: engine_only_engineCall)

lemma engine_only_logRotation: "engine_only s (logRotation ops d s)"
  by (auto simp: logRotation_def engine_only_def split: option.splits)

lemma both_ok_putWindowInTile:
  assumes "both_ok s"
  shows "both_ok (putWindowInTile ops w k d s)"
proof (cases "bimap_get (tiles s) (Some k)")
  case None
  with assms show ?thesis by (simp add: putWindowInTile_def both_ok_def)
next
  case (Some t)
  let ?s1 = "if \<not> bimap_has (clients s) w then registerClient w s else s"
  from assms have ok1: "both_ok ?s1" by (simp add: both_ok_registerClient)
  show ?thesis
  proof (cases "bimap_get (clients ?s1) w")
    case None
    with Some ok1 show ?thesis
      by (simp add: putWindowInTile_def Let_def catchLog_def both_ok_def)
  next
    case (Some c)
    have "engine_only ?s1 (placeAndBuild ops c t (rotatedDirection ops (engine ?s1) d)
                             (logRotation ops d ?s1))"
      by (rule engine_only_trans [OF engine_only_logRotation engine_only_placeAndBuild])
    from both_ok_engine_only [OF this ok1] Some \<open>bimap_get (tiles s) (Some k) = Some t\<close>
    show ?thesis by (simp add: putWindowInTile_def Let_def)
  qed
qed

lemma both_ok_switchEngine:
  assumes "both_ok s"
  shows "both_ok (switchEngine ops e ty s)"
proof -
  let ?s1 = "s\<lparr>engine := e, engineType := ty\<rparr>"
  from assms have ok1: "both_ok ?s1" by (simp add: both_ok_def)
  have "engine_only ?s1 (switchEngine ops e ty s)"
    unfolding switchEngine_def Let_def
    by (rule engine_only_catchLog, rule engine_only_andThen)
       (auto simp: engine_only_engineCall engine_only_addClients)
  from both_ok_engine_only [OF this ok1] show ?thesis .
qed

lemma andThen_preserves:
  assumes "P (snd r)" and "\<And>s. P s \<Longrightarrow> P (snd (g s))"
  shows "P (snd (andThen r g))"
  using assms by (cases r) (auto simp: andThen_def split: option.splits)

lemma both_ok_splitPhase: "both_ok s \<Longrightarrow> both_ok (snd (splitPhase k d i s))"
  by (auto simp: splitPhase_def hostSplit_def Let_def both_ok_def split: option.splits)

lemma both_ok_sizePhase: "both_ok s \<Longrightarrow> both_ok (snd (sizePhase k hz n i s))"
  by (auto simp: sizePhase_def both_ok_def split: option.splits)

lemma both_ok_splitStep:
  assumes "both_ok s"
  shows "both_ok (snd (splitStep k d hz n i c s))"
  unfolding splitStep_def
proof (rule andThen_preserves [where P = both_ok])
  show "both_ok (snd (splitPhase k d i s))" using assms by (rule both_ok_splitPhase)
next
  fix s1 :: "'a State"
  assume ok1: "both_ok s1"
  show "both_ok (snd (andThen (sizePhase k hz n i s1)
          (\<lambda>s2. (None, s2\<lparr>tiles := bimap_set (at_index (k_children k (live s2)) i) c (tiles s2)\<rparr>))))"
  proof (rule andThen_preserves [where P = both_ok])
    show "both_ok (snd (sizePhase k hz n i s1))" using ok1 by (rule both_ok_sizePhase)
  next
    fix s2 :: "'a State"
    assume "both_ok s2"
    then show "both_ok (snd (None, s2\<lparr>tiles := bimap_set (at_index (k_children k (live s2)) i) c (tiles s2)\<rparr>))"
      by (simp add: both_ok_def one_to_one_set)
  qed
qed

lemma both_ok_splitLoop: "both_ok s \<Longrightarrow> both_ok (snd (splitLoop k d hz n i cs s))"
proof (induction cs arbitrary: i s)
  case Nil
  then show ?case by simp
next
  case (Cons c cs)
  show ?case
    by (simp, rule andThen_preserves [where P = both_ok])
       (auto intro: both_ok_splitStep Cons)
qed

lemma both_ok_placeClient: "both_ok s \<Longrightarrow> both_ok (snd (placeClient k oc s))"
  by (auto simp: placeClient_def both_ok_def Let_def split: option.splits)

lemma both_ok_visitTile:
  assumes "both_ok s"
  shows "both_ok (snd (snd (visitTile t s)))"
proof -
  let ?kq = "case bimap_inverse_get (tiles s) t of Some (Some k) \<Rightarrow> Some k | _ \<Rightarrow> None"
  let ?s1 = "s\<lparr>managedTiles := insert ?kq (managedTiles s)\<rparr>"
  from assms have ok1: "both_ok ?s1" by (simp add: both_ok_def)
  show ?thesis
  proof (cases ?kq)
    case None
    with ok1 show ?thesis by (simp add: visitTile_def Let_def)
  next
    case (Some k)
    show ?thesis
    proof (cases "k_find k (live ?s1)")
      case None
      with Some ok1 show ?thesis by (simp add: visitTile_def Let_def)
    next
      case found: (Some n)
      let ?tobj = "objs (theap ?s1) t"
      let ?d = "t_layoutDirection ?tobj"
      let ?s2 = "?s1\<lparr>live := k_update k (setLayoutDirection ?d) (live ?s1)\<rparr>"
      from ok1 have ok2: "both_ok ?s2" by (simp add: both_ok_def)
      let ?r = "if length (t_tiles ?tobj) > 1
                then splitLoop k ?d (?d = 1) (length (t_tiles ?tobj)) 0 (t_tiles ?tobj) ?s2
                else if length (t_tiles ?tobj) = 1
                then (None, ?s2\<lparr>tiles := bimap_set (Some k) (t_tiles ?tobj ! 0) (tiles ?s2)\<rparr>)
                else (None, ?s2)"
      have ok3: "both_ok (snd ?r)"
        using ok2 both_ok_splitLoop [OF ok2]
        by (auto simp: both_ok_def one_to_one_set)
      obtain x s3 where r: "?r = (x, s3)" by (cases ?r) auto
      with ok3 have ok3': "both_ok s3" by simp
      have "both_ok (snd (placeClient k (t_client ?tobj) s3))"
        using ok3' by (rule both_ok_placeClient)
      with Some found r ok3' show ?thesis
        by (cases x) (auto simp: visitTile_def Let_def split: prod.splits if_splits)
    qed
  qed
qed

lemma both_ok_buildLoop_imp:
  assumes "buildLoop q0 s0 = Some r0"
  shows "both_ok s0 \<longrightarrow> both_ok (snd r0)"
proof (rule buildLoop.raw_induct
    [where P = "\<lambda>q s r. both_ok s \<longrightarrow> both_ok (snd r)", OF _ assms], goal_cases)
  case (1 f q s r)
  show ?case
  proof
    assume ok: "both_ok s"
    show "both_ok (snd r)"
    proof (cases q)
      case Nil
      with 1(2) ok show ?thesis by auto
    next
      case (Cons t q')
      obtain c enq s' where v: "visitTile t s = (c, enq, s')"
        by (cases "visitTile t s") auto
      with both_ok_visitTile [OF ok, of t] have ok': "both_ok s'" by simp
      show ?thesis
      proof (cases c)
        case Next
        with 1(2) Cons v have "f (q' @ enq) s' = Some r" by simp
        from 1(1) [OF this] ok' show ?thesis by simp
      next
        case Stop
        with 1(2) Cons v ok' show ?thesis by auto
      next
        case (Raise e)
        with 1(2) Cons v ok' show ?thesis by auto
      qed
    qed
  qed
qed

lemma both_ok_buildLoop:
  "buildLoop q s = Some r \<Longrightarrow> both_ok s \<Longrightarrow> both_ok (snd r)"
  using both_ok_buildLoop_imp by blast

lemma both_ok_buildTree:
  assumes "buildTree rootTile realRoot s = Some r" and "both_ok s"
  shows "both_ok (snd r)"
proof -
  let ?s0 = "s\<lparr>tiles := bimap_set (Some rootTile) realRoot (tiles s)\<rparr>"
  from assms(2) have ok0: "both_ok ?s0" by (simp add: both_ok_def one_to_one_set)
  from assms(1) obtain r' where l: "buildLoop [realRoot] ?s0 = Some r'"
    by (cases "buildLoop [realRoot] ?s0") (auto simp: buildTree_def)
  from both_ok_buildLoop [OF l ok0] have "both_ok (snd r')" .
  with assms(1) l show ?thesis
    by (cases r'; cases "fst r'") (auto simp: buildTree_def fixSizing_def)
qed

lemma both_ok_buildLayout:
  assumes "buildLayout ops rootTile s = Some r" and "both_ok s"
  shows "both_ok (snd r)"
proof (cases "k_find rootTile (live s)")
  case None
  with assms show ?thesis by (auto simp: buildLayout_def)
next
  case (Some n0)
  let ?s3 = "s\<lparr>live := clearRoot rootTile (live s), tiles := bimap_empty,
               untiledWindows := untiledOf (clients s) (e_untiledClients ops (engine s))\<rparr>"
  from assms(2) have ok3: "both_ok ?s3" by (simp add: both_ok_def)
  from assms(1) Some obtain rr where rr: "realRootTile (theap s) (e_rootTile ops (engine s)) = Some rr"
    by (cases "realRootTile (theap s) (e_rootTile ops (engine s))") (auto simp: buildLayout_def Let_def)
  have m: "both_ok (maximizeRoot c ?s3)" for c
    using ok3 by (auto simp: maximizeRoot_def both_ok_def split: option.splits)
  from assms(1) Some rr have
    "r = (None, maximizeRoot (the (t_client (objs (theap s) rr))) ?s3) \<or>
     buildTree rootTile rr ?s3 = Some r"
    by (auto simp: buildLayout_def Let_def split: option.splits if_splits)
  then show ?thesis
  proof
    assume "r = (None, maximizeRoot (the (t_client (objs (theap s) rr))) ?s3)"
    with m show ?thesis by simp
  next
    assume "buildTree rootTile rr ?s3 = Some r"
    from both_ok_buildTree [OF this ok3] show ?thesis .
  qed
qed

lemma both_ok_destroyChild: "both_ok s \<Longrightarrow> both_ok (destroyChild c s)"
  by (simp add: destroyChild_def both_ok_def one_to_one_inverse_delete)

lemma both_ok_destroyLoop: "both_ok s \<Longrightarrow> both_ok (destroyLoop t i s)"
proof (induction t i s rule: destroyLoop.induct)
  case (1 t i s)
  show ?case
  proof (cases "i < length (t_tiles (objs (theap s) t))")
    case True
    from 1(1) [OF True both_ok_destroyChild [OF 1(2)]] True
    show ?thesis by (subst destroyLoop.simps) simp
  next
    case False
    with 1(2) show ?thesis by (subst destroyLoop.simps) simp
  qed
qed

lemma both_ok_createLoop: "both_ok s \<Longrightarrow> both_ok (createLoop t cs s)"
proof (induction cs arbitrary: s)
  case Nil
  then show ?case by simp
next
  case (Cons c cs)
  have "both_ok (if \<not> bimap_has (tiles s) (Some c)
        then (case tile_addChild t (theap s) of
                (newTile, h') \<Rightarrow> s\<lparr>theap := h', tiles := bimap_set (Some c) newTile (tiles s)\<rparr>)
        else s)"
    using Cons.prems by (auto simp: both_ok_def one_to_one_set split: prod.splits)
  from Cons.IH [OF this] show ?case by simp
qed

lemma both_ok_regenerateTile: "both_ok s \<Longrightarrow> both_ok (regenerateTile ops kt t s)"
proof -
  assume ok: "both_ok s"
  let ?s1 = "s\<lparr>theap := setRequestedSize t (fromRect (k_absoluteGeometry kt)) (theap s)\<rparr>"
  from ok have ok1: "both_ok ?s1" by (simp add: both_ok_def)
  from both_ok_createLoop [OF both_ok_destroyLoop [OF ok1]] ok1
  show ?thesis by (simp add: regenerateTile_def Let_def)
qed

lemma both_ok_regenerateWalk: "both_ok s \<Longrightarrow> both_ok (regenerateWalk ops q s)"
proof (induction ops q s rule: regenerateWalk.induct)
  case (1 ops s)
  then show ?case by simp
next
  case (2 ops kt q s)
  show ?case
  proof (cases "bimap_get (tiles s) (Some (k_id kt))")
    case None
    from 2(3) have "both_ok (s\<lparr>logger := logger s @ [ErrorTileNotRegistered (k_id kt)]\<rparr>)"
      by (simp add: both_ok_def)
    from 2(1) [OF None this] None show ?thesis by simp
  next
    case (Some t)
    from 2(2) [OF Some both_ok_regenerateTile [OF 2(3)]] Some show ?thesis by simp
  qed
qed

lemma both_ok_regenerateLayout:
  assumes "both_ok s"
  shows "both_ok (snd (regenerateLayout ops rootTile s))"
proof (cases "k_find rootTile (live s)")
  case None
  with assms show ?thesis by (simp add: regenerateLayout_def)
next
  case (Some n)
  let ?s1 = "regenerateWalk ops [n] s"
  have "engine_only ?s1 (catchLog (andThen (engineCall (e_regenerateLayout ops) ?s1)
                             (engineCall (e_buildLayout ops))))"
    by (rule engine_only_catchLog, rule engine_only_andThen)
       (auto simp: engine_only_engineCall)
  from both_ok_engine_only [OF this both_ok_regenerateWalk [OF assms]] Some
  show ?thesis by (simp add: regenerateLayout_def)
qed

subsection \<open>A run of buildLayout on two siblings\<close>

lemma k_find_root: "k_find (k_id t) t = Some t"
  by (cases t) simp

lemma clearRoot_root_aux:
  "k_id t = r \<longrightarrow>
   clearRoot r t = KTile r (k_layoutDirection t) (k_relativeGeometry t) (k_absoluteGeometry t)
                     (k_padding t) []"
proof (induction r t rule: clearRoot.induct)
  case (1 r t)
  show ?case
  proof
    assume r: "k_id t = r"
    obtain j d rg ag p ts where t: "t = KTile j d rg ag p ts" by (cases t)
    with r have jr: "j = r" by simp
    have f: "k_find r t = Some t" using k_find_root [of t] r by simp
    show "clearRoot r t = KTile r (k_layoutDirection t) (k_relativeGeometry t)
                            (k_absoluteGeometry t) (k_padding t) []"
    proof (cases ts)
      case Nil
      with f t jr show ?thesis by (subst clearRoot.simps) simp
    next
      case (Cons c cs)
      with t have kt: "k_tiles t = c # cs" by simp
      have "k_id (k_remove (k_id c) t) = r" using r by simp
      with 1 [OF f kt] have
        "clearRoot r (k_remove (k_id c) t)
           = KTile r (k_layoutDirection (k_remove (k_id c) t))
               (k_relativeGeometry (k_remove (k_id c) t))
               (k_absoluteGeometry (k_remove (k_id c) t)) (k_padding (k_remove (k_id c) t)) []"
        by simp
      moreover have "clearRoot r t = clearRoot r (k_remove (k_id c) t)"
        using f kt by (subst clearRoot.simps) simp
      ultimately show ?thesis using t by simp
    qed
  qed
qed

lemma clearRoot_root:
  "clearRoot (k_id t) t = KTile (k_id t) (k_layoutDirection t) (k_relativeGeometry t)
                            (k_absoluteGeometry t) (k_padding t) []"
  using clearRoot_root_aux [of t "k_id t"] by simp

lemma fold_max_nil [simp]: "k_maxid (KTile j d r a p []) = j"
  by simp

lemma splitStep_first:
  assumes "tiles s = \<lparr>items = [(Some k, r)], inverse_items = [(r, Some k)]\<rparr>"
    and "live s = KTile k 1 R A P []"
    and "a \<noteq> r"
  shows "splitStep k 1 True 2 0 a s =
      (None, s\<lparr>live := KTile k 1 R A P
          [KTile (max (nextKwinTile s) (Suc k)) 1 (fst (splitGeometry s 1 R)) (fst (splitGeometry s 1 A)) P [],
           KTile (Suc (max (nextKwinTile s) (Suc k))) 1 (snd (splitGeometry s 1 R)) (snd (splitGeometry s 1 A)) P []],
        nextKwinTile := max (nextKwinTile s) (Suc k) + 2,
        tiles := \<lparr>items = [(Some k, r), (Some (max (nextKwinTile s) (Suc k)), a)],
                   inverse_items = [(r, Some k), (a, Some (max (nextKwinTile s) (Suc k)))]\<rparr>\<rparr>)"
proof -
  define k0 where "k0 = max (nextKwinTile s) (Suc k)"
  have k0: "k0 \<noteq> k" by (simp add: k0_def)
  show ?thesis
    using assms k0 unfolding k0_def [symmetric]
    by (simp add: splitStep_def splitPhase_def sizePhase_def andThen_def hostSplit_def Let_def
        splitIntoChildren_def k_children_def at_index_def bimap_set_def k0_def [symmetric])
qed

lemma splitStep_second:
  assumes "tiles s = \<lparr>items = [(Some k, r), (Some k0, a)],
                       inverse_items = [(r, Some k), (a, Some k0)]\<rparr>"
    and "live s = KTile k 1 R A P [KTile k0 1 R0 A0 P [], KTile k1 1 R1 A1 P []]"
    and "b \<noteq> r" "b \<noteq> a" "k0 \<noteq> k" "k1 \<noteq> k" "k1 \<noteq> k0"
  shows "splitStep k 1 True 2 (Suc 0) b s =
      (None, s\<lparr>live := KTile k 1 R A P
          [KTile k0 1 (R0\<lparr>rwidth := rwidth R / 2\<rparr>) A0 P [], KTile k1 1 R1 A1 P []],
        tiles := \<lparr>items = [(Some k, r), (Some k0, a), (Some k1, b)],
                   inverse_items = [(r, Some k), (a, Some k0), (b, Some k1)]\<rparr>\<rparr>)"
  using assms
  by (simp add: splitStep_def splitPhase_def sizePhase_def andThen_def Let_def
      k_children_def at_index_def bimap_set_def setRelativeWidth_def)

lemma visit_two_children:
  assumes tm: "tiles s = \<lparr>items = [(Some k, r)], inverse_items = [(r, Some k)]\<rparr>"
    and lv: "live s = KTile k d0 R A P []"
    and robj: "t_tiles (objs (theap s) r) = [a, b]" "t_layoutDirection (objs (theap s) r) = 1"
      "t_client (objs (theap s) r) = None"
    and ne: "a \<noteq> b" "a \<noteq> r" "b \<noteq> r"
  shows "visitTile r s =
     (Next, [a, b],
      s\<lparr>managedTiles := insert (Some k) (managedTiles s),
        live := KTile k 1 R A P
          [KTile (max (nextKwinTile s) (Suc k)) 1 ((fst (splitGeometry s 1 R))\<lparr>rwidth := rwidth R / 2\<rparr>)
             (fst (splitGeometry s 1 A)) P [],
           KTile (Suc (max (nextKwinTile s) (Suc k))) 1 (snd (splitGeometry s 1 R)) (snd (splitGeometry s 1 A)) P []],
        nextKwinTile := max (nextKwinTile s) (Suc k) + 2,
        tiles := \<lparr>items = [(Some k, r), (Some (max (nextKwinTile s) (Suc k)), a),
                            (Some (Suc (max (nextKwinTile s) (Suc k))), b)],
                   inverse_items = [(r, Some k), (a, Some (max (nextKwinTile s) (Suc k))),
                            (b, Some (Suc (max (nextKwinTile s) (Suc k))))]\<rparr>\<rparr>)"
proof -
  define k0 where "k0 = max (nextKwinTile s) (Suc k)"
  have k0: "k0 \<noteq> k" "Suc k0 \<noteq> k" by (simp_all add: k0_def)
  have inv: "bimap_inverse_get (tiles s) r = Some (Some k)"
    by (simp add: tm bimap_inverse_get_def)
  let ?s2 = "s\<lparr>managedTiles := insert (Some k) (managedTiles s),
               live := KTile k 1 R A P []\<rparr>"
  have t2: "tiles ?s2 = \<lparr>items = [(Some k, r)], inverse_items = [(r, Some k)]\<rparr>"
    by (simp add: tm)
  have l2: "live ?s2 = KTile k 1 R A P []" by simp
  note st0 = splitStep_first [OF t2 l2 ne(2), folded k0_def]
  let ?s3 = "?s2\<lparr>live := KTile k 1 R A P
          [KTile k0 1 (fst (splitGeometry s 1 R)) (fst (splitGeometry s 1 A)) P [],
           KTile (Suc k0) 1 (snd (splitGeometry s 1 R)) (snd (splitGeometry s 1 A)) P []],
        nextKwinTile := k0 + 2,
        tiles := \<lparr>items = [(Some k, r), (Some k0, a)],
                   inverse_items = [(r, Some k), (a, Some k0)]\<rparr>\<rparr>"
  have t3: "tiles ?s3 = \<lparr>items = [(Some k, r), (Some k0, a)],
                   inverse_items = [(r, Some k), (a, Some k0)]\<rparr>" by simp
  have l3: "live ?s3 = KTile k 1 R A P
          [KTile k0 1 (fst (splitGeometry s 1 R)) (fst (splitGeometry s 1 A)) P [],
           KTile (Suc k0) 1 (snd (splitGeometry s 1 R)) (snd (splitGeometry s 1 A)) P []]" by simp
  have sk: "Suc k0 \<noteq> k0" by simp
  note st1 = splitStep_second [OF t3 l3 ne(3) ne(1) [symmetric] k0(1) k0(2) sk]
  have nk: "nextKwinTile ?s2 = nextKwinTile s" by simp
  have loop: "splitLoop k 1 True 2 0 [a, b] ?s2 =
      (None, ?s2\<lparr>live := KTile k 1 R A P
          [KTile k0 1 ((fst (splitGeometry s 1 R))\<lparr>rwidth := rwidth R / 2\<rparr>) (fst (splitGeometry s 1 A)) P [],
           KTile (Suc k0) 1 (snd (splitGeometry s 1 R)) (snd (splitGeometry s 1 A)) P []],
        nextKwinTile := k0 + 2,
        tiles := \<lparr>items = [(Some k, r), (Some k0, a), (Some (Suc k0), b)],
                   inverse_items = [(r, Some k), (a, Some k0), (b, Some (Suc k0))]\<rparr>\<rparr>)"
    using st0 st1 by (simp add: andThen_def k0_def)
  have two: "Suc (Suc 0) = 2" by simp
  show ?thesis
    using loop unfolding k0_def [symmetric]
    by (simp add: visitTile_def inv lv robj Let_def setLayoutDirection_def placeClient_def two)
qed

lemma visit_leaf_client:
  assumes "bimap_inverse_get (tiles s) t = Some (Some k)"
    and "k_find k (live s) = Some n"
    and "k_find k (k_update k (setLayoutDirection (t_layoutDirection (objs (theap s) t))) (live s))
           = Some n'"
    and "t_tiles (objs (theap s) t) = []"
    and "t_client (objs (theap s) t) = Some c"
    and "bimap_inverse_get (clients s) c = Some w"
    and "windowExtensions s w = Some ext"
  shows "\<exists>s'. visitTile t s = (Next, [], s') \<and>
           tiles s' = tiles s \<and> clients s' = clients s \<and> theap s' = theap s \<and>
           live s' = k_update k (setLayoutDirection (t_layoutDirection (objs (theap s) t))) (live s) \<and>
           w_tile (windows s' w) = Some k \<and>
           (\<forall>w'. w' \<noteq> w \<longrightarrow> windows s' w' = windows s w') \<and>
           (\<forall>w'. w' \<noteq> w \<longrightarrow> windowExtensions s' w' = windowExtensions s w')"
  using assms
  by (simp add: visitTile_def Let_def placeClient_def)

lemma two_siblings_run:
  assumes root: "k_id (live s) = rootTile"
    and rr: "realRootTile (theap s) (e_rootTile ops (engine s)) = Some r"
    and robj: "t_tiles (objs (theap s) r) = [a, b]" "t_layoutDirection (objs (theap s) r) = 1"
      "t_client (objs (theap s) r) = None"
    and ab: "a \<noteq> b"
    and aobj: "t_tiles (objs (theap s) a) = []" "t_client (objs (theap s) a) = Some ca"
    and bobj: "t_tiles (objs (theap s) b) = []" "t_client (objs (theap s) b) = Some cb"
    and wins: "bimap_inverse_get (clients s) ca = Some wa" "bimap_inverse_get (clients s) cb = Some wb"
      "wa \<noteq> wb"
    and exts: "windowExtensions s wa = Some xa" "windowExtensions s wb = Some xb"
  shows "\<exists>s' c0 c1.
           buildLayout ops rootTile s = Some (None, s') \<and>
           k_id (live s') = rootTile \<and> k_tiles (live s') = [c0, c1] \<and>
           k_relativeGeometry (live s') = k_relativeGeometry (live s) \<and>
           k_relativeGeometry c0 =
             (fst (splitGeometry s 1 (k_relativeGeometry (live s))))
               \<lparr>rwidth := rwidth (k_relativeGeometry (live s)) / 2\<rparr> \<and>
           k_relativeGeometry c1 = snd (splitGeometry s 1 (k_relativeGeometry (live s))) \<and>
           k_id c0 \<noteq> k_id c1 \<and>
           w_tile (windows s' wa) = Some (k_id c0) \<and> w_tile (windows s' wb) = Some (k_id c1)"
proof -
  obtain d0 R A P ts where lv: "live s = KTile rootTile d0 R A P ts"
    using root by (cases "live s") auto
  have ar: "a \<noteq> r" "b \<noteq> r" using robj aobj bobj by auto
  define k0 where "k0 = max (nextKwinTile s) (Suc rootTile)"
  have k0: "k0 \<noteq> rootTile" "Suc k0 \<noteq> rootTile" by (simp_all add: k0_def)
  let ?U = "untiledOf (clients s) (e_untiledClients ops (engine s))"
  let ?s3 = "s\<lparr>live := KTile rootTile d0 R A P [], tiles := bimap_empty, untiledWindows := ?U\<rparr>"
  let ?s4 = "?s3\<lparr>tiles := \<lparr>items = [(Some rootTile, r)], inverse_items = [(r, Some rootTile)]\<rparr>\<rparr>"
  have cr: "clearRoot rootTile (live s) = KTile rootTile d0 R A P []"
    using clearRoot_root [of "live s"] lv by simp
  have set0: "bimap_set (Some rootTile) r bimap_empty
                = \<lparr>items = [(Some rootTile, r)], inverse_items = [(r, Some rootTile)]\<rparr>"
    by (simp add: bimap_set_def bimap_empty_def)
  let ?c0 = "KTile k0 1 ((fst (splitGeometry s 1 R))\<lparr>rwidth := rwidth R / 2\<rparr>) (fst (splitGeometry s 1 A)) P []"
  let ?c1 = "KTile (Suc k0) 1 (snd (splitGeometry s 1 R)) (snd (splitGeometry s 1 A)) P []"
  let ?tm = "\<lparr>items = [(Some rootTile, r), (Some k0, a), (Some (Suc k0), b)],
              inverse_items = [(r, Some rootTile), (a, Some k0), (b, Some (Suc k0))]\<rparr>"
  let ?s5 = "?s4\<lparr>managedTiles := insert (Some rootTile) (managedTiles ?s4),
               live := KTile rootTile 1 R A P [?c0, ?c1],
               nextKwinTile := k0 + 2, tiles := ?tm\<rparr>"
  have v1: "visitTile r ?s4 = (Next, [a, b], ?s5)"
    using visit_two_children [of ?s4 rootTile r d0 R A P a b] robj ab ar
    by (simp add: k0_def)
  define da where "da = t_layoutDirection (objs (theap s) a)"
  define db where "db = t_layoutDirection (objs (theap s) b)"
  have "\<exists>s6. visitTile a ?s5 = (Next, [], s6) \<and>
           tiles s6 = tiles ?s5 \<and> clients s6 = clients ?s5 \<and> theap s6 = theap ?s5 \<and>
           live s6 = k_update k0 (setLayoutDirection (t_layoutDirection (objs (theap ?s5) a))) (live ?s5) \<and>
           w_tile (windows s6 wa) = Some k0 \<and>
           (\<forall>w'. w' \<noteq> wa \<longrightarrow> windows s6 w' = windows ?s5 w') \<and>
           (\<forall>w'. w' \<noteq> wa \<longrightarrow> windowExtensions s6 w' = windowExtensions ?s5 w')"
    using ab ar k0 aobj wins exts
    by (intro visit_leaf_client [where c = ca and ext = xa])
       (simp_all add: bimap_inverse_get_def setLayoutDirection_def)
  then obtain s6 where v2: "visitTile a ?s5 = (Next, [], s6)"
    and s6: "tiles s6 = ?tm" "clients s6 = clients s" "theap s6 = theap s"
      "live s6 = KTile rootTile 1 R A P
         [KTile k0 da ((fst (splitGeometry s 1 R))\<lparr>rwidth := rwidth R / 2\<rparr>) (fst (splitGeometry s 1 A)) P [], ?c1]"
      "w_tile (windows s6 wa) = Some k0"
      "windowExtensions s6 wb = windowExtensions s wb"
    using k0 wins(3) by (auto simp: setLayoutDirection_def da_def)
  have "\<exists>s7. visitTile b s6 = (Next, [], s7) \<and>
           tiles s7 = tiles s6 \<and> clients s7 = clients s6 \<and> theap s7 = theap s6 \<and>
           live s7 = k_update (Suc k0) (setLayoutDirection (t_layoutDirection (objs (theap s6) b))) (live s6) \<and>
           w_tile (windows s7 wb) = Some (Suc k0) \<and>
           (\<forall>w'. w' \<noteq> wb \<longrightarrow> windows s7 w' = windows s6 w') \<and>
           (\<forall>w'. w' \<noteq> wb \<longrightarrow> windowExtensions s7 w' = windowExtensions s6 w')"
    using ab ar k0 bobj wins exts s6
    by (intro visit_leaf_client [where c = cb and ext = xb])
       (simp_all add: bimap_inverse_get_def setLayoutDirection_def)
  then obtain s7 where v3: "visitTile b s6 = (Next, [], s7)"
    and s7: "live s7 = KTile rootTile 1 R A P
         [KTile k0 da ((fst (splitGeometry s 1 R))\<lparr>rwidth := rwidth R / 2\<rparr>) (fst (splitGeometry s 1 A)) P [],
          KTile (Suc k0) db (snd (splitGeometry s 1 R)) (snd (splitGeometry s 1 A)) P []]"
      "w_tile (windows s7 wb) = Some (Suc k0)"
      "w_tile (windows s7 wa) = Some k0"
    using k0 wins(3) s6 by (auto simp: setLayoutDirection_def db_def)
  have l3: "buildLoop [] s7 = Some (Next, s7)"
    by (subst buildLoop.simps) simp
  have l2: "buildLoop [b] s6 = Some (Next, s7)"
    using v3 l3 by (subst buildLoop.simps) simp
  have l1: "buildLoop [a, b] ?s5 = Some (Next, s7)"
    using v2 l2 by (subst buildLoop.simps) simp
  have l0: "buildLoop [r] ?s4 = Some (Next, s7)"
    using v1 l1 by (subst buildLoop.simps) simp
  have bt: "buildTree rootTile r ?s3 = Some (None, s7)"
    using l0 by (simp add: buildTree_def set0 fixSizing_def)
  have bl: "buildLayout ops rootTile s = Some (None, s7)"
    using bt rr robj lv cr by (simp add: buildLayout_def Let_def)
  show ?thesis
    using bl s7 lv by auto
qed

lemma realRoot_siblings: "realRootTile siblings_heap 0 = Some 0"
  by (subst realRootTile.simps) (simp add: siblings_heap_def leaf_obj_def)

lemma siblings_heap_objs:
  "t_tiles (objs siblings_heap 0) = [7, 8]" "t_layoutDirection (objs siblings_heap 0) = 1"
  "t_client (objs siblings_heap 0) = None"
  "t_tiles (objs siblings_heap 7) = []" "t_client (objs siblings_heap 7) = Some 5"
  "t_tiles (objs siblings_heap 8) = []" "t_client (objs siblings_heap 8) = Some 6"
  by (simp_all add: siblings_heap_def leaf_obj_def)

lemma two_clients_inverse:
  "bimap_inverse_get two_clients 5 = Some 2" "bimap_inverse_get two_clients 6 = Some 3"
  by (simp_all add: two_clients_def bimap_inverse_get_def)

lemma stub_extensions [simp]:
  "windowExtensions (stub_state h tm cm lv ms) w = Some \<lparr>maximized = False, lastTiledLocation = None\<rparr>"
  by (simp add: stub_state_def)

lemma one_to_one_root_registered: "one_to_one root_registered"
  by (auto simp: one_to_one_def root_registered_def)

lemma one_to_one_two_clients: "one_to_one two_clients"
  by (auto simp: one_to_one_def two_clients_def)

subsection \<open>The walk of regenerateLayout\<close>

lemma same_structure_refl [simp]: "same_structure h h"
  by (simp add: same_structure_def)



lemma destroyChild_frame [simp]:
  "live (destroyChild c s) = live s" "engine (destroyChild c s) = engine s"
  by (simp_all add: destroyChild_def)

lemma destroyLoop_frame [simp]:
  "live (destroyLoop t i s) = live s \<and> engine (destroyLoop t i s) = engine s"
proof (induction t i s rule: destroyLoop.induct)
  case (1 t i s)
  show ?case
  proof (cases "i < length (t_tiles (objs (theap s) t))")
    case True
    from 1 [OF True] True show ?thesis by (subst (1 2) destroyLoop.simps) simp
  next
    case False
    then show ?thesis by (subst (1 2) destroyLoop.simps) simp
  qed
qed

lemma createLoop_frame [simp]:
  "live (createLoop t cs s) = live s \<and> engine (createLoop t cs s) = engine s"
  by (induction cs arbitrary: s) (auto split: prod.splits)

lemma regenerateTile_frame [simp]:
  "live (regenerateTile ops kt t s) = live s" "engine (regenerateTile ops kt t s) = engine s"
  by (simp_all add: regenerateTile_def Let_def)





lemma tile_remove_next [simp]: "next_tile (tile_remove c h) = next_tile h"
  by (simp add: tile_remove_def Let_def split: option.splits)







lemma tilesMutable_regenerateTile [simp]:
  "tilesMutable ops (regenerateTile ops kt t s) = tilesMutable ops s"
  by (simp add: tilesMutable_def)


lemma regenerateTile_mutable:
  "tilesMutable ops s \<Longrightarrow>
   regenerateTile ops kt t s
     = createLoop t (map k_id (k_tiles kt))
         (destroyLoop t 0 (s\<lparr>theap := setRequestedSize t (fromRect (k_absoluteGeometry kt)) (theap s)\<rparr>))"
  by (simp add: regenerateTile_def tilesMutable_def Let_def)



lemma stub_mutable: "tilesMutable (stub_engine f ip rot 2) s"
  by (simp add: tilesMutable_def hasCapability_def)





lemma createLoop_Cons:
  "createLoop t (k # cs) s
     = createLoop t cs (if \<not> bimap_has (tiles s) (Some k) then createChild t k s else s)"
  by (simp add: createChild_def split: prod.splits)

lemma destroyChild_lacks:
  "destroyChild c s =
     (if lacksLive (tiles s) c
      then s\<lparr>tiles := bimap_inverse_delete c (tiles s), theap := tile_remove c (theap s)\<rparr>
      else s)"
  by (simp add: destroyChild_def lacksLive_def)






lemma tile_addChild_next [simp]:
  "fst (tile_addChild t h) = next_tile h"
  "next_tile (snd (tile_addChild t h)) = Suc (next_tile h)"
  by (simp_all add: tile_addChild_def Let_def)









lemma setRequestedSize_structure [simp]:
  "t_tiles (objs (setRequestedSize t sz h) t') = t_tiles (objs h t')"
  "t_parent (objs (setRequestedSize t sz h) t') = t_parent (objs h t')"
  "next_tile (setRequestedSize t sz h) = next_tile h"
  by (simp_all add: setRequestedSize_def)






lemma createChild_appends:
  assumes "tiles_allocated s" and "\<not> bimap_has (tiles s) (Some k)"
  shows "tiles (createChild t k s)
           = \<lparr>items = items (tiles s) @ [(Some k, next_tile (theap s))],
              inverse_items = inverse_items (tiles s) @ [(next_tile (theap s), Some k)]\<rparr>"
proof -
  from assms(1) have fresh: "next_tile (theap s) \<notin> fst ` set (inverse_items (tiles s))"
    by (auto simp: tiles_allocated_def)
  show ?thesis
    by (simp add: createChild_def bimap_set_new [OF assms(2) fresh])
qed






























lemma root_with_child_fields:
  "k_id root_with_child = 10"
  "k_tiles root_with_child = [KTile 11 1 unit_rect unit_rect 0 []]"
  by (simp_all add: root_with_child_def)

lemma registered_gets:
  "bimap_get root_registered (Some 10) = Some 0" "bimap_get child_registered (Some 10) = Some 0"
  "\<not> bimap_has root_registered (Some 11)"
  by (simp_all add: root_registered_def child_registered_def bimap_get_def bimap_has_def)

lemma regenerateWalk_skips_next:
  "lacksLive (tiles (stub_state siblings_heap root_registered two_clients root_with_child False)) 8 \<and> t_tiles (objs (theap (regenerateWalk (stub_engine False InsertLeft False 2) [root_with_child] (stub_state siblings_heap root_registered two_clients root_with_child False))) 0) = [8, 9] \<and>
   tiles (regenerateWalk (stub_engine False InsertLeft False 2) [root_with_child] (stub_state siblings_heap root_registered two_clients root_with_child False)) = \<lparr>items = [(Some 10, 0), (Some 11, 9)], inverse_items = [(0, Some 10), (9, Some 11)]\<rparr>"
proof -
  let ?s = "(stub_state siblings_heap root_registered two_clients root_with_child False)"
  let ?ops = "(stub_engine False InsertLeft False 2)"
  let ?k = "KTile 11 1 unit_rect unit_rect 0 []"
  define s1 where "s1 = ?s\<lparr>theap := setRequestedSize 0 (fromRect (k_absoluteGeometry root_with_child)) (theap ?s)\<rparr>"
  define s2 where "s2 = destroyChild 7 s1"
  define s3 where "s3 = createChild 0 11 s2"
  define s4 where "s4 = s3\<lparr>theap := setRequestedSize 9 (fromRect unit_rect) (theap s3)\<rparr>"
  have l8: "lacksLive (tiles ?s) 8"
    by (simp add: lacksLive_def root_registered_def bimap_inverse_get_def)
  have l7: "lacksLive (tiles s1) 7"
    by (simp add: s1_def lacksLive_def root_registered_def bimap_inverse_get_def)
  have c1: "t_tiles (objs (theap s1) 0) = [7, 8]" by (simp add: s1_def siblings_heap_objs)
  have c2: "t_tiles (objs (theap s2) 0) = [8]"
    using l7
    by (simp add: s2_def destroyChild_lacks)
       (simp add: s1_def tile_remove_def siblings_heap_def leaf_obj_def Let_def)
  have t2: "tiles s2 = root_registered"
    using l7
    by (simp add: s2_def destroyChild_lacks)
       (simp add: s1_def bimap_inverse_delete_def root_registered_def)
  have n2: "next_tile (theap s2) = 9"
    by (simp add: s2_def destroyChild_def) (simp add: s1_def siblings_heap_def)
  have d: "destroyLoop 0 0 s1 = s2"
    using c1 c2 unfolding s2_def
    by (subst destroyLoop.simps, simp, subst destroyLoop.simps, simp)
  have nh: "\<not> bimap_has (tiles s2) (Some 11)" by (simp add: t2 registered_gets)
  have al2: "tiles_allocated s2" by (simp add: tiles_allocated_def t2 n2 root_registered_def)
  have cl: "createLoop 0 (map k_id (k_tiles root_with_child)) s2 = s3"
    using nh unfolding s3_def
    by (simp only: root_with_child_fields list.map KTile.sel createLoop_Cons createLoop.simps) simp
  have t3: "tiles s3 = \<lparr>items = [(Some 10, 0), (Some 11, 9)], inverse_items = [(0, Some 10), (9, Some 11)]\<rparr>"
    unfolding s3_def by (simp add: createChild_appends [OF al2 nh] t2 n2 root_registered_def)
  have c3: "t_tiles (objs (theap s3) 0) = [8, 9]"
    using c2 n2 unfolding s3_def by (simp add: createChild_def tile_addChild_def Let_def)
  have c9: "t_tiles (objs (theap s3) 9) = []"
    using n2 unfolding s3_def by (simp add: createChild_def tile_addChild_def Let_def)
  have m1: "tilesMutable ?ops ?s" and m3: "tilesMutable ?ops s3" by (rule stub_mutable)+
  have r1: "regenerateTile ?ops root_with_child 0 ?s = s3"
    using d cl by (simp add: regenerateTile_mutable [OF m1] s1_def)
  have c4: "t_tiles (objs (theap s4) 9) = []" "t_tiles (objs (theap s4) 0) = [8, 9]"
    "tiles s4 = tiles s3"
    using c9 c3 by (simp_all add: s4_def)
  have d4: "destroyLoop 9 0 s4 = s4"
    using c4(1) by (subst destroyLoop.simps) simp
  have r2: "regenerateTile ?ops ?k 9 s3 = s4"
    using d4 unfolding s4_def by (simp add: regenerateTile_mutable [OF m3])
  have g10: "bimap_get (tiles ?s) (Some (k_id root_with_child)) = Some 0"
    by (simp add: root_with_child_fields registered_gets)
  have g11: "bimap_get (tiles s3) (Some (k_id ?k)) = Some 9"
    by (simp add: t3 bimap_get_def)
  have w: "(regenerateWalk (stub_engine False InsertLeft False 2) [root_with_child] (stub_state siblings_heap root_registered two_clients root_with_child False)) = s4"
    using g10 g11 r1 r2
    by (simp add: root_with_child_fields)
  show ?thesis
    unfolding w using l8 c4 t3 by simp
qed

subsection \<open>The claims\<close>

text \<open>
  C1. \<^verbatim>\<open>addWindow\<close> on an untracked window when the engine inserts at the active
  position, the active window sits in a registered tile and the engine's placement call
  throws: the exception reaches the caller of \<^verbatim>\<open>addWindow\<close> and nothing is logged; the
  window's entry in the client map stays.
\<close>

theorem addWindow_placement_exception_escapes:
  "fst (addWindow (stub_engine True Active False 0) 2
          (stub_state leaf_heap root_registered bimap_empty root_only False))
     = Some (EngineError 1) \<and>
   bimap_get (clients (snd (addWindow (stub_engine True Active False 0) 2
          (stub_state leaf_heap root_registered bimap_empty root_only False)))) 2 = Some 9 \<and>
   logger (snd (addWindow (stub_engine True Active False 0) 2
          (stub_state leaf_heap root_registered bimap_empty root_only False))) = []"
  by (simp add: addWindow_def activeChecks_def stub_simps Let_def)




text \<open>
  C3. A call \<^verbatim>\<open>buildLayout(rootTile)\<close> with "maximize single window" enabled, where the
  descent through single-child tiles without occupant ends at a tile whose occupant maps to
  a known window: the call returns, \<open>rootTile\<close> has no live child tile left, the window has
  no tile assignment and is maximized, and the tile map ends empty (no live tile tree is
  built).
\<close>

theorem buildLayout_maximize_single:
  assumes "k_find rootTile (live s) = Some n0"
    and "maximizeSingle s"
    and "realRootTile (theap s) (e_rootTile ops (engine s)) = Some realRoot"
    and "t_client (objs (theap s) realRoot) = Some c"
    and "bimap_inverse_get (clients s) c = Some w"
  shows "\<exists>s'. buildLayout ops rootTile s = Some (None, s') \<and>
           k_children rootTile (live s') = [] \<and>
           k_id (live s') = k_id (live s) \<and>
           w_tile (windows s' w) = None \<and>
           maximizeMode (windows s' w) = (True, True) \<and>
           tiles s' = bimap_empty"
  using assms
  by (simp add: buildLayout_def Let_def maximizeRoot_def)

theorem buildLayout_maximize_single_witness:
  "k_find 10 (live (stub_state (occupied_heap 5) root_registered one_client root_with_child True))
     = Some root_with_child \<and>
   realRootTile (occupied_heap 5) 0 = Some 0 \<and>
   bimap_inverse_get one_client 5 = Some 2 \<and>
   (\<exists>s'. buildLayout (stub_engine False InsertLeft False 0) 10
             (stub_state (occupied_heap 5) root_registered one_client root_with_child True)
           = Some (None, s') \<and>
         k_children 10 (live s') = [] \<and> k_id (live s') = 10 \<and>
         w_tile (windows s' 2) = None \<and> maximizeMode (windows s' 2) = (True, True) \<and>
         tiles s' = bimap_empty)"
proof -
  let ?s = "stub_state (occupied_heap 5) root_registered one_client root_with_child True"
  let ?ops = "stub_engine False InsertLeft False 0"
  have h1: "k_find 10 (live ?s) = Some root_with_child"
    by (simp add: root_with_child_def)
  have h2: "maximizeSingle ?s" by simp
  have h3: "realRootTile (theap ?s) (e_rootTile ?ops (engine ?s)) = Some 0"
    by (simp add: realRoot_occupied)
  have h4: "t_client (objs (theap ?s) 0) = Some 5"
    by (simp add: occupied_heap_def)
  have h5: "bimap_inverse_get (clients ?s) 5 = Some 2"
    by (simp add: one_client_def bimap_inverse_get_def)
  have i: "k_id root_with_child = 10"
    by (simp add: root_with_child_def)
  show ?thesis
    using h1 h3 h5 buildLayout_maximize_single [OF h1 h2 h3 h4 h5]
    by (simp add: i)
qed




text \<open>
  C5. A call \<^verbatim>\<open>putWindowInTile(window, liveTile, direction?)\<close> with a live tile that is
  absent from the tile map logs an error and changes nothing else: the state it returns is
  the state before the call with one more log entry, so the client map, the tile map, the
  untiled list, the abstract tiles and the live tree are as they were.
\<close>

theorem putWindowInTile_unregistered:
  "bimap_get (tiles s) (Some kwinTile) = None \<Longrightarrow>
   putWindowInTile ops window kwinTile direction s
     = s\<lparr>logger := logger s @ [ErrorTileNotRegistered kwinTile]\<rparr>"
  by (simp add: putWindowInTile_def)

theorem putWindowInTile_unregistered_witness:
  "bimap_get (tiles (stub_state leaf_heap bimap_empty bimap_empty root_only False)) (Some 10) = None \<and>
   putWindowInTile (stub_engine False Active False 0) 2 10 (Some 3)
       (stub_state leaf_heap bimap_empty bimap_empty root_only False)
     = (stub_state leaf_heap bimap_empty bimap_empty root_only False)
         \<lparr>logger := [ErrorTileNotRegistered 10]\<rparr>"
proof -
  have h: "bimap_get (tiles (stub_state leaf_heap bimap_empty bimap_empty root_only False)) (Some 10) = None"
    by (simp add: stub_state_def bimap_get_def bimap_empty_def)
  have l: "logger (stub_state leaf_heap bimap_empty bimap_empty root_only False) = []"
    by (simp add: stub_state_def)
  show ?thesis
    using h putWindowInTile_unregistered [OF h, of "stub_engine False Active False 0" 2 "Some 3"]
    by (simp add: l)
qed

text \<open>
  C6. In \<^verbatim>\<open>putWindowInTile\<close> with a direction \<open>d\<close>, for a registered live tile: the
  direction handed to the engine's placement call is \<open>rotateCw d\<close> when rotation is enabled
  in the engine's configuration and the capability bits include the rotation-translation
  flag, and \<open>d\<close> itself in every other case.
\<close>

theorem putWindowInTile_direction:
  assumes "bimap_get (tiles s) (Some kwinTile) = Some t"
    and "bimap_get (clients (if \<not> bimap_has (clients s) window then registerClient window s else s))
           window = Some c"
  shows "putWindowInTile ops window kwinTile (Some d) s
     = catchLog (andThen
         (engineCall
            (e_putClientInTile ops c t
               (Some (if e_rotateLayout ops (engine s) \<and>
                         (e_engineCapability ops (engine s) AND TranslateRotation ops)
                            = TranslateRotation ops
                      then rotateCw ops d else d)))
            (logRotation ops (Some d)
               (if \<not> bimap_has (clients s) window then registerClient window s else s)))
         (engineCall (e_buildLayout ops)))"
  using assms
  by (simp add: putWindowInTile_def placeAndBuild_def rotatedDirection_def hasCapability_def
      registerClient_def)

theorem putWindowInTile_direction_witness:
  "bimap_get (tiles (stub_state leaf_heap root_registered bimap_empty root_only False)) (Some 10) = Some 0 \<and>
   putWindowInTile (stub_engine False InsertLeft True 1) 2 10 (Some 3)
       (stub_state leaf_heap root_registered bimap_empty root_only False)
     = catchLog (andThen
         (engineCall (e_putClientInTile (stub_engine False InsertLeft True 1) 9 0 (Some 0))
            ((stub_state leaf_heap root_registered
                 \<lparr>items = [(2, 9)], inverse_items = [(9, 2)]\<rparr> root_only False)
               \<lparr>nextClient := 10, logger := [DebugRotated 0]\<rparr>))
         (engineCall (e_buildLayout (stub_engine False InsertLeft True 1))))"
proof -
  let ?s = "stub_state leaf_heap root_registered bimap_empty root_only False"
  let ?ops = "stub_engine False InsertLeft True 1"
  have h1: "bimap_get (tiles ?s) (Some 10) = Some 0"
    by (simp add: stub_simps)
  have h2: "bimap_get (clients (if \<not> bimap_has (clients ?s) 2 then registerClient 2 ?s else ?s)) 2
              = Some 9"
    by (simp add: stub_simps Let_def)
  have s1: "(if \<not> bimap_has (clients ?s) 2 then registerClient 2 ?s else ?s)
              = (stub_state leaf_heap root_registered
                   \<lparr>items = [(2, 9)], inverse_items = [(9, 2)]\<rparr> root_only False)\<lparr>nextClient := 10\<rparr>"
    by (simp add: stub_simps Let_def)
  show ?thesis
    using h1 putWindowInTile_direction [OF h1 h2, of ?ops 3]
    by (simp add: s1) (simp add: stub_simps)
qed

text \<open>
  C7. For a window that is not tracked (and a client map that holds no client the driver
  has yet to create), \<^verbatim>\<open>addWindow\<close> followed by \<^verbatim>\<open>removeWindow\<close> leaves the client map and
  the tile map as they were before the \<^verbatim>\<open>addWindow\<close>, and the untiled list has gained the
  window.
\<close>

theorem addWindow_removeWindow_roundtrip:
  assumes "\<not> bimap_has (clients s) window"
    and "nextClient s \<notin> fst ` set (inverse_items (clients s))"
  shows "clients (removeWindow ops window (snd (addWindow ops window s))) = clients s \<and>
         tiles (removeWindow ops window (snd (addWindow ops window s))) = tiles s \<and>
         untiledWindows (removeWindow ops window (snd (addWindow ops window s)))
           = untiledWindows s @ [window] \<and>
         engineType (removeWindow ops window (snd (addWindow ops window s))) = engineType s"
proof -
  let ?s1 = "snd (addWindow ops window s)"
  let ?c = "nextClient s"
  let ?m = "\<lparr>items = items (clients s) @ [(window, ?c)],
             inverse_items = inverse_items (clients s) @ [(?c, window)]\<rparr>"
  have reg: "clients (registerClient window s) = ?m"
    by (simp add: registerClient_def bimap_set_new [OF assms])
  from addWindow_new [OF assms(1), of ops]
  have s1: "clients ?s1 = ?m" "tiles ?s1 = tiles s" "untiledWindows ?s1 = untiledWindows s"
    "engineType ?s1 = engineType s"
    by (simp_all add: engine_only_def reg) (simp_all add: registerClient_def)
  from assms(1) have "map_of (items (clients s)) window = None"
    by (simp add: bimap_has_def)
  then have get: "bimap_get (clients ?s1) window = Some ?c"
    by (simp add: s1 bimap_get_def map_add_def)
  from removeWindow_tracked [OF get, of ops] bimap_delete_new [OF assms]
  show ?thesis
    by (simp add: engine_only_def s1)
qed

theorem addWindow_removeWindow_roundtrip_witness:
  "\<not> bimap_has (clients (stub_state leaf_heap root_registered bimap_empty root_only False)) 2 \<and>
   clients (removeWindow (stub_engine False InsertLeft False 0) 2
              (snd (addWindow (stub_engine False InsertLeft False 0) 2
                      (stub_state leaf_heap root_registered bimap_empty root_only False))))
     = bimap_empty \<and>
   tiles (removeWindow (stub_engine False InsertLeft False 0) 2
              (snd (addWindow (stub_engine False InsertLeft False 0) 2
                      (stub_state leaf_heap root_registered bimap_empty root_only False))))
     = root_registered \<and>
   untiledWindows (removeWindow (stub_engine False InsertLeft False 0) 2
              (snd (addWindow (stub_engine False InsertLeft False 0) 2
                      (stub_state leaf_heap root_registered bimap_empty root_only False))))
     = [2]"
proof -
  let ?s = "stub_state leaf_heap root_registered bimap_empty root_only False"
  have h1: "\<not> bimap_has (clients ?s) 2"
    by (simp add: stub_state_def bimap_has_def bimap_empty_def)
  have h2: "nextClient ?s \<notin> fst ` set (inverse_items (clients ?s))"
    by (simp add: stub_state_def bimap_empty_def)
  have f: "clients ?s = bimap_empty" "tiles ?s = root_registered" "untiledWindows ?s = []"
    by (simp_all add: stub_state_def)
  show ?thesis
    using h1 addWindow_removeWindow_roundtrip [OF h1 h2, of "stub_engine False InsertLeft False 0"]
    by (simp add: f)
qed

text \<open>
  C8. Both identity maps (abstract tile to live tile, client to live window) are
  one-to-one in both directions in a new driver, and every public operation of the driver
  (\<^verbatim>\<open>addWindow\<close>, \<^verbatim>\<open>removeWindow\<close>, \<^verbatim>\<open>putWindowInTile\<close>, \<^verbatim>\<open>buildLayout\<close>, \<^verbatim>\<open>regenerateLayout\<close>,
  \<^verbatim>\<open>switchEngine\<close>) keeps them so, whether it returns normally or with an exception: no
  two abstract objects are associated with the same live object and no two live objects
  with the same abstract object. This covers the step of \<^verbatim>\<open>buildLayout\<close> that maps the live
  tile of a tile with one child to that child.
\<close>

theorem identity_maps_stay_one_to_one:
  "(tiles s0 = bimap_empty \<and> clients s0 = bimap_empty \<longrightarrow> maps_one_to_one s0) \<and>
   (maps_one_to_one s \<longrightarrow>
      maps_one_to_one (snd (addWindow ops window s)) \<and>
      maps_one_to_one (removeWindow ops window s) \<and>
      maps_one_to_one (putWindowInTile ops window kwinTile direction s) \<and>
      (\<forall>r. buildLayout ops rootTile s = Some r \<longrightarrow> maps_one_to_one (snd r)) \<and>
      maps_one_to_one (snd (regenerateLayout ops rootTile s)) \<and>
      maps_one_to_one (switchEngine ops newEngine newEngineType s))"
proof (intro conjI impI allI)
  assume "tiles s0 = bimap_empty \<and> clients s0 = bimap_empty"
  then show "maps_one_to_one s0"
    by (simp add: maps_one_to_one_iff both_ok_def)
next
  assume "maps_one_to_one s"
  then show "maps_one_to_one (snd (addWindow ops window s))"
    by (simp add: maps_one_to_one_iff both_ok_addWindow)
next
  assume "maps_one_to_one s"
  then show "maps_one_to_one (removeWindow ops window s)"
    by (simp add: maps_one_to_one_iff both_ok_removeWindow)
next
  assume "maps_one_to_one s"
  then show "maps_one_to_one (putWindowInTile ops window kwinTile direction s)"
    by (simp add: maps_one_to_one_iff both_ok_putWindowInTile)
next
  fix r
  assume "maps_one_to_one s" and "buildLayout ops rootTile s = Some r"
  then show "maps_one_to_one (snd r)"
    by (simp add: maps_one_to_one_iff both_ok_buildLayout)
next
  assume "maps_one_to_one s"
  then show "maps_one_to_one (snd (regenerateLayout ops rootTile s))"
    by (simp add: maps_one_to_one_iff both_ok_regenerateLayout)
next
  assume "maps_one_to_one s"
  then show "maps_one_to_one (switchEngine ops newEngine newEngineType s)"
    by (simp add: maps_one_to_one_iff both_ok_switchEngine)
qed

theorem identity_maps_stay_one_to_one_witness:
  "maps_one_to_one (stub_state siblings_heap root_registered two_clients root_with_child False) \<and>
   maps_one_to_one (snd (addWindow (stub_engine False InsertLeft False 0) 4
      (stub_state siblings_heap root_registered two_clients root_with_child False))) \<and>
   maps_one_to_one (removeWindow (stub_engine False InsertLeft False 0) 2
      (stub_state siblings_heap root_registered two_clients root_with_child False)) \<and>
   (\<exists>r. buildLayout (stub_engine False InsertLeft False 0) 10
           (stub_state siblings_heap root_registered two_clients root_with_child False) = Some r \<and>
        maps_one_to_one (snd r)) \<and>
   maps_one_to_one (snd (regenerateLayout (stub_engine False InsertLeft False 2) 10
      (stub_state siblings_heap root_registered two_clients root_with_child False)))"
proof -
  let ?s = "stub_state siblings_heap root_registered two_clients root_with_child False"
  let ?ops = "stub_engine False InsertLeft False 0"
  have m: "maps_one_to_one ?s"
    by (simp add: maps_one_to_one_iff both_ok_def one_to_one_root_registered
        one_to_one_two_clients)
  have "k_id (live ?s) = 10" by (simp add: root_with_child_def)
  from two_siblings_run [OF this, of ?ops 0 7 8 5 6 2 3]
  obtain r where r: "buildLayout ?ops 10 ?s = Some r"
    by (auto simp: realRoot_siblings siblings_heap_objs two_clients_inverse)
  from m r
    identity_maps_stay_one_to_one [of ?s ?s ?ops 4 10 None 10 "[]" 0]
    identity_maps_stay_one_to_one [of ?s ?s ?ops 2 10 None 10 "[]" 0]
    identity_maps_stay_one_to_one [of ?s ?s "stub_engine False InsertLeft False 2" 2 10 None 10 "[]" 0]
  show ?thesis by blast
qed

text \<open>
  C9. For every window and each of the four directions: a window with no assigned tile
  gives no probe point; a window assigned to a tile gives the probe point that lies beyond
  the frame's edge on the requested side by exactly 1 plus the tile's padding, with the
  other coordinate 1 inside the frame's top-left corner. This point is strictly outside
  the frame on that side exactly when the padding is greater than \<open>-1\<close>, so for every
  padding that is not negative; \<^verbatim>\<open>padding\<close> is a plain \<^verbatim>\<open>number\<close> of the host, and with a
  padding of \<open>-1\<close> or less the point is on the frame's edge or beyond it on the inner side.
  The coordinates, JavaScript numbers, are read as real numbers: the sums are the exact
  ones, without the rounding of doubles.
\<close>

theorem pointInDirection_probe:
  "(w_tile window = None \<longrightarrow> pointInDirection padding window d = None) \<and>
   (\<forall>t. w_tile window = Some t \<longrightarrow>
      pointInDirection padding window d = Some (probe (frameGeometry window) (padding t) d) \<and>
      (outside (frameGeometry window) d (probe (frameGeometry window) (padding t) d)
         \<longleftrightarrow> - 1 < padding t))"
  by (cases d) (auto simp: pointAbove_def pointBelow_def pointLeft_def pointRight_def Let_def)

theorem pointInDirection_probe_witness:
  "pointInDirection (\<lambda>_. 4) \<lparr>w_tile = Some 7, frameGeometry = \<lparr>rx = 100, ry = 50, rwidth = 300, rheight = 200\<rparr>, minimized = False, fullScreen = False, maximizeMode = (False, False)\<rparr> Below
     = Some \<lparr>px = 101, py = 255\<rparr> \<and>
   outside \<lparr>rx = 100, ry = 50, rwidth = 300, rheight = 200\<rparr> Below \<lparr>px = 101, py = 255\<rparr> \<and>
   pointInDirection (\<lambda>_. 4) \<lparr>w_tile = None, frameGeometry = \<lparr>rx = 100, ry = 50, rwidth = 300, rheight = 200\<rparr>, minimized = False, fullScreen = False, maximizeMode = (False, False)\<rparr> Left
     = None"
  using pointInDirection_probe
    [of "\<lparr>w_tile = Some 7, frameGeometry = \<lparr>rx = 100, ry = 50, rwidth = 300, rheight = 200\<rparr>, minimized = False, fullScreen = False, maximizeMode = (False, False)\<rparr>" "\<lambda>_. 4" Below]
    pointInDirection_probe
    [of "\<lparr>w_tile = None, frameGeometry = \<lparr>rx = 100, ry = 50, rwidth = 300, rheight = 200\<rparr>, minimized = False, fullScreen = False, maximizeMode = (False, False)\<rparr>" "\<lambda>_. 4" Left]
  by simp

text \<open>
  The claim as worded, for every window, fails for a tile with a negative padding: with
  padding \<open>-5\<close> the probe point above the frame at \<open>(100, 50)\<close> of size \<open>300 \<times> 200\<close> is
  \<open>(101, 54)\<close>, a point inside the frame.
\<close>

theorem pointInDirection_probe_counterexample:
  "pointInDirection (\<lambda>_. - 5) \<lparr>w_tile = Some 7, frameGeometry = \<lparr>rx = 100, ry = 50, rwidth = 300, rheight = 200\<rparr>, minimized = False, fullScreen = False, maximizeMode = (False, False)\<rparr> Above
     = Some \<lparr>px = 101, py = 54\<rparr> \<and>
   \<not> outside \<lparr>rx = 100, ry = 50, rwidth = 300, rheight = 200\<rparr> Above \<lparr>px = 101, py = 54\<rparr> \<and>
   rx \<lparr>rx = 100, ry = 50, rwidth = 300, rheight = 200\<rparr> < px \<lparr>px = 101, py = 54\<rparr> \<and>
   px \<lparr>px = 101, py = 54\<rparr> < rx \<lparr>rx = 100, ry = 50, rwidth = 300, rheight = 200\<rparr> + rwidth \<lparr>rx = 100, ry = 50, rwidth = 300, rheight = 200\<rparr> \<and>
   ry \<lparr>rx = 100, ry = 50, rwidth = 300, rheight = 200\<rparr> < py \<lparr>px = 101, py = 54\<rparr> \<and>
   py \<lparr>px = 101, py = 54\<rparr> < ry \<lparr>rx = 100, ry = 50, rwidth = 300, rheight = 200\<rparr> + rheight \<lparr>rx = 100, ry = 50, rwidth = 300, rheight = 200\<rparr>"
  by (simp add: pointAbove_def Let_def)

text \<open>
  C10. With "maximize single window" enabled and a real root whose occupant has no entry
  in the client map, \<^verbatim>\<open>buildLayout\<close> returns without an exception and without a log
  entry, after it has removed every live child of the root tile and emptied the tile map:
  the state it leaves is the state before with the cleared live tree, the empty tile map
  and the untiled list computed anew from the engine's untiled clients; no window is
  maximized or assigned.
\<close>

theorem buildLayout_maximize_unknown_client:
  assumes "k_find rootTile (live s) = Some n0"
    and "maximizeSingle s"
    and "realRootTile (theap s) (e_rootTile ops (engine s)) = Some realRoot"
    and "t_client (objs (theap s) realRoot) = Some c"
    and "bimap_inverse_get (clients s) c = None"
  shows "buildLayout ops rootTile s
           = Some (None, s\<lparr>live := clearRoot rootTile (live s), tiles := bimap_empty,
                           untiledWindows := untiledOf (clients s) (e_untiledClients ops (engine s))\<rparr>) \<and>
         k_children rootTile (clearRoot rootTile (live s)) = []"
  using assms
  by (simp add: buildLayout_def Let_def maximizeRoot_def)

theorem buildLayout_maximize_unknown_client_counterexample:
  "k_find 10 (live ((stub_state (occupied_heap 7) root_registered one_client root_with_child True)
                       \<lparr>engine := [5]\<rparr>)) = Some root_with_child \<and>
   maximizeSingle ((stub_state (occupied_heap 7) root_registered one_client root_with_child True)
                       \<lparr>engine := [5]\<rparr>) \<and>
   realRootTile (occupied_heap 7) 0 = Some 0 \<and>
   t_client (objs (occupied_heap 7) 0) = Some 7 \<and>
   bimap_inverse_get one_client 7 = None \<and>
   (\<exists>s'. buildLayout (stub_engine False InsertLeft False 0) 10
      ((stub_state (occupied_heap 7) root_registered one_client root_with_child True)
          \<lparr>engine := [5]\<rparr>) = Some (None, s') \<and> untiledWindows s' = [2])"
proof -
  have f: "k_find 10 root_with_child = Some root_with_child"
    by (simp add: root_with_child_def)
  have c: "t_client (objs (occupied_heap 7) 0) = Some 7"
    by (simp add: occupied_heap_def)
  have g: "bimap_inverse_get one_client 7 = None" "bimap_inverse_get one_client 5 = Some 2"
    by (simp_all add: one_client_def bimap_inverse_get_def)
  show ?thesis
    by (simp add: buildLayout_def Let_def maximizeRoot_def realRoot_occupied f c g)
qed

theorem buildLayout_maximize_unknown_client_witness:
  "k_find 10 (live (stub_state (occupied_heap 7) root_registered one_client root_with_child True))
     = Some root_with_child \<and>
   realRootTile (occupied_heap 7) 0 = Some 0 \<and>
   bimap_inverse_get one_client 7 = None \<and>
   buildLayout (stub_engine False InsertLeft False 0) 10
       (stub_state (occupied_heap 7) root_registered one_client root_with_child True)
     = Some (None, stub_state (occupied_heap 7) bimap_empty one_client root_only True)"
proof -
  let ?s = "stub_state (occupied_heap 7) root_registered one_client root_with_child True"
  let ?ops = "stub_engine False InsertLeft False 0"
  have h1: "k_find 10 (live ?s) = Some root_with_child"
    by (simp add: root_with_child_def)
  have h2: "maximizeSingle ?s" by simp
  have h3: "realRootTile (theap ?s) (e_rootTile ?ops (engine ?s)) = Some 0"
    by (simp add: realRoot_occupied)
  have h4: "t_client (objs (theap ?s) 0) = Some 7"
    by (simp add: occupied_heap_def)
  have h5: "bimap_inverse_get (clients ?s) 7 = None"
    by (simp add: one_client_def bimap_inverse_get_def)
  have e: "?s\<lparr>live := root_only, tiles := bimap_empty, untiledWindows := []\<rparr>
             = stub_state (occupied_heap 7) bimap_empty one_client root_only True"
    by (simp add: stub_state_def)
  show ?thesis
    using h1 h3 h5 buildLayout_maximize_unknown_client [OF h1 h2 h3 h4 h5]
    by (simp add: clear_root_with_child e)
qed

end
